theory Spec2Isabelle
  imports Main "HOL-Library.Sublist" "HOL-Library.AList"
begin

section \<open>Paths\<close>

text \<open>
  A \<open>boost::filesystem::path\<close> is modelled by the sequence of elements its iterator
  yields from \<open>begin()\<close> to \<open>end()\<close>: the root directory \<open>/\<close> first (for an absolute
  path), then one element per name.  Equality of paths (\<open>operator==\<close>) compares these
  element sequences, so it is equality of lists.
\<close>

type_synonym path = "string list"

text \<open>\<open>p.root_path()\<close>: the root directory of an absolute path, empty otherwise.\<close>

definition root_path :: "path \<Rightarrow> path" where
  "root_path p = (case p of [] \<Rightarrow> [] | c # _ \<Rightarrow> if c = ''/'' then [''/''] else [])"

text \<open>\<open>p.filename()\<close>: the last element, as a path.\<close>

definition filename :: "path \<Rightarrow> path" where
  "filename p = (if p = [] then [] else [last p])"

text \<open>
  \<open>p.stem()\<close>: the filename without its extension (the part from the last dot on);
  the names \<open>.\<close> and \<open>..\<close> have no extension.
\<close>

definition stem_of_name :: "string \<Rightarrow> string" where
  "stem_of_name n =
     (if n = ''.'' \<or> n = ''..'' \<or> CHR ''.'' \<notin> set n then n
      else rev (tl (dropWhile (\<lambda>c. c \<noteq> CHR ''.'') (rev n))))"

definition stem :: "path \<Rightarrow> path" where
  "stem p = (if p = [] then []
             else (let s = stem_of_name (last p) in if s = [] then [] else [s]))"

text \<open>\<open>p / q\<close> for a relative \<open>q\<close>: the elements of \<open>p\<close> followed by those of \<open>q\<close>.\<close>

definition path_append :: "path \<Rightarrow> path \<Rightarrow> path" where
  "path_append p q = p @ q"

text \<open>
  \<open>p.generic_string()\<close>: the elements joined by slashes; no separator is written after
  the root directory.
\<close>

fun generic_string :: "path \<Rightarrow> string" where
  "generic_string [] = []"
| "generic_string [c] = c"
| "generic_string (c # d # cs) =
     (if c = ''/'' then c @ generic_string (d # cs)
      else c @ ''/'' @ generic_string (d # cs))"

text \<open>
  \<open>fs::path(s)\<close> read back as elements: the names between slashes; a leading slash
  is the root directory, repeated slashes count once, and slashes after the last name
  yield the element \<open>.\<close>.
\<close>

fun split_names :: "string \<Rightarrow> string \<Rightarrow> string list" where
  "split_names acc [] = (if acc = [] then [] else [acc])"
| "split_names acc (c # cs) =
     (if c = CHR ''/''
      then (if acc = [] then split_names [] cs
            else if list_all (\<lambda>d. d = CHR ''/'') cs then [acc, ''.'']
            else acc # split_names [] cs)
      else split_names (acc @ [c]) cs)"

definition path_of_string :: "string \<Rightarrow> path" where
  "path_of_string s =
     (case s of
        [] \<Rightarrow> []
      | c # cs \<Rightarrow> if c = CHR ''/'' then ''/'' # split_names [] cs else split_names [] s)"

section \<open>Collaborators\<close>

datatype xml_node = Element (node_name: string) (node_text: string) (node_children: "xml_node list")

type_synonym MetaDataList = "(string \<times> string) list"

datatype FileType = GAME | FOLDER

type_synonym addr = nat

record FileData =
  mType :: FileType
  mPath :: path
  metadata :: MetaDataList
  mChildren :: "addr list"
  mParent :: "addr option"

type_synonym heap = "FileData list"

text \<open>
  The filesystem library, the metadata model and the tree traversal are not part of
  \<open>XMLReader.cpp\<close>; what it calls of them is a parameter here.
  \<^item> \<open>fs_canonical\<close> is \<open>fs::canonical\<close>: \<open>None\<close> when it throws (the path does not exist);
  \<^item> \<open>fs_exists\<close> and \<open>fs_equivalent\<close> are \<open>fs::exists\<close> and \<open>fs::equivalent\<close>;
  \<^item> \<open>createFromXML\<close> is \<open>MetaDataList::createFromXML(GAME_METADATA, node)\<close>;
  \<^item> \<open>appendToXML\<close> gives the child elements that \<open>appendToXML(node, true)\<close> appends;
  \<^item> \<open>getCleanFileName\<close> is the default name derived from a path;
  \<^item> \<open>getFilesRecursive\<close> is \<open>getFilesRecursive(GAME | FOLDER)\<close> of a node;
  \<^item> \<open>save_file_ok\<close> tells whether \<open>doc.save_file\<close> succeeds.
\<close>

record env =
  fs_canonical :: "path \<Rightarrow> path option"
  fs_exists :: "path \<Rightarrow> bool"
  fs_equivalent :: "path \<Rightarrow> path \<Rightarrow> bool"
  createFromXML :: "xml_node \<Rightarrow> MetaDataList"
  appendToXML :: "MetaDataList \<Rightarrow> xml_node list"
  getCleanFileName :: "path \<Rightarrow> string"
  getFilesRecursive :: "heap \<Rightarrow> addr \<Rightarrow> addr list"
  save_file_ok :: bool

datatype error = FilesystemError | NullPointer

section \<open>removeCommonPath\<close>

text \<open>
  An iterator over a path is the list of the elements it has not passed yet: \<open>end()\<close>
  is the empty list and \<open>++\<close> is \<open>tl\<close>.  Dereferencing yields the element under the
  iterator; \<open>None\<close> stands for whatever is read at \<open>end()\<close>.
\<close>

definition deref :: "string list \<Rightarrow> string option" where
  "deref it = (case it of [] \<Rightarrow> None | c # _ \<Rightarrow> Some c)"

text \<open>
  The first loop, \<open>while(*itr_path == *itr_relative_to && itr_path != p.end() &&
  itr_relative_to != r.end())\<close>.  The condition dereferences both iterators before it
  compares them with the ends; the third component of the result records whether an
  iterator equal to \<open>end()\<close> has been dereferenced.  What the comparison yields there
  does not matter for the result, the rest of the conjunction being false.
\<close>

fun find_divergence :: "string list \<Rightarrow> string list \<Rightarrow> bool \<Rightarrow> string list \<times> string list \<times> bool" where
  "find_divergence itr_path itr_relative_to end_deref =
     (let end_deref' = (end_deref \<or> itr_path = [] \<or> itr_relative_to = []) in
      if deref itr_path = deref itr_relative_to \<and> itr_path \<noteq> [] \<and> itr_relative_to \<noteq> []
      then find_divergence (tl itr_path) (tl itr_relative_to) end_deref'
      else (itr_path, itr_relative_to, end_deref'))"

declare find_divergence.simps [simp del]

text \<open>The second loop: the remaining elements, except \<open>.\<close>, appended to the result.\<close>

fun append_rest :: "path \<Rightarrow> string list \<Rightarrow> path" where
  "append_rest result [] = result"
| "append_rest result (c # itr_path) =
     append_rest (if c \<noteq> ''.'' then path_append result [c] else result) itr_path"

definition removeCommonPath :: "env \<Rightarrow> path \<Rightarrow> path \<Rightarrow> error + (path \<times> bool)" where
  "removeCommonPath E path relativeTo =
     (case fs_canonical E path of
        None \<Rightarrow> Inl FilesystemError
      | Some p \<Rightarrow>
         (case fs_canonical E relativeTo of
            None \<Rightarrow> Inl FilesystemError
          | Some r \<Rightarrow>
             if root_path p \<noteq> root_path r then Inr (p, False)
             else (case find_divergence p r False of
                     (itr_path, itr_relative_to, _) \<Rightarrow>
                       if itr_relative_to \<noteq> [] then Inr (p, False)
                       else Inr (append_rest [] itr_path, True))))"

section \<open>The tree of entries\<close>

text \<open>
  \<open>FileData\<close> objects live in a store; a pointer is an index into it and \<open>new\<close>
  appends a cell.  Pointers held by the program are valid (\<open>wf_heap\<close>).
\<close>

record SystemData =
  rootFolder :: "addr option"

definition wf_heap :: "heap \<Rightarrow> bool" where
  "wf_heap h = (\<forall>a < length h. \<forall>c \<in> set (mChildren (h ! a)). c < length h)"

text \<open>
  Modelled from the spec: \<open>MetaDataList::get\<close> and \<open>MetaDataList::set\<close> are missing; the
  metadata is an ordered mapping of string keys to string values, and a key that is
  not set reads as the empty string.
\<close>

definition md_get :: "MetaDataList \<Rightarrow> string \<Rightarrow> string" where
  "md_get m k = (case map_of m k of None \<Rightarrow> [] | Some v \<Rightarrow> v)"

definition md_set :: "MetaDataList \<Rightarrow> string \<Rightarrow> string \<Rightarrow> MetaDataList" where
  "md_set m k v = AList.update k v m"

text \<open>
  Modelled from the spec: the constructor \<open>FileData(type, path, system)\<close> is missing; a
  new entry has no children, no parent, and metadata whose name is the default
  derived from its path.
\<close>

definition new_FileData :: "env \<Rightarrow> FileType \<Rightarrow> path \<Rightarrow> FileData" where
  "new_FileData E t p =
     \<lparr>mType = t, mPath = p, metadata = [(''name'', getCleanFileName E p)],
      mChildren = [], mParent = None\<rparr>"

definition alloc :: "heap \<Rightarrow> FileData \<Rightarrow> addr \<times> heap" where
  "alloc h n = (length h, h @ [n])"

text \<open>
  Modelled from the spec: \<open>FileData::addChild\<close> is missing; the child is put after the
  children already there and its parent back-reference is set.
\<close>

definition addChild :: "heap \<Rightarrow> addr \<Rightarrow> addr \<Rightarrow> heap" where
  "addChild h node file =
     (let h1 = h[node := (h ! node)\<lparr>mChildren := mChildren (h ! node) @ [file]\<rparr>]
      in h1[file := (h1 ! file)\<lparr>mParent := Some node\<rparr>])"

section \<open>findOrCreateFile\<close>

text \<open>
  The inner \<open>for\<close> loop: the first child whose \<open>getPath().filename()\<close> equals the
  path element.
\<close>

fun find_child :: "heap \<Rightarrow> addr list \<Rightarrow> string \<Rightarrow> addr option" where
  "find_child h [] c = None"
| "find_child h (child # children) c =
     (if filename (mPath (h ! child)) = [c] then Some child else find_child h children c)"

text \<open>
  The \<open>while\<close> loop over the elements of \<open>relative\<close>, from the node \<open>treeNode\<close>.  The
  element is the last one (\<open>path_it == --relative.end()\<close>) when no element follows it.
  A loop that runs off the end returns \<open>NULL\<close>.
\<close>

fun walk :: "env \<Rightarrow> path \<Rightarrow> FileType \<Rightarrow> heap \<Rightarrow> addr \<Rightarrow> string list \<Rightarrow> addr option \<times> heap" where
  "walk E path type h treeNode [] = (None, h)"
| "walk E path type h treeNode (c # path_it) =
     (case find_child h (mChildren (h ! treeNode)) c of
        Some child \<Rightarrow>
          if path_it = [] then (Some child, h)
          else walk E path type h child path_it
      | None \<Rightarrow>
          if path_it = [] then
            (if type = FOLDER then (None, h)
             else (case alloc h (new_FileData E type path) of
                     (file, h') \<Rightarrow> (Some file, addChild h' treeNode file)))
          else
            (if type = FOLDER then (None, h)
             else (case alloc h (new_FileData E FOLDER
                                   (path_append (stem (mPath (h ! treeNode))) [c])) of
                     (folder, h') \<Rightarrow>
                       walk E path type (addChild h' treeNode folder) folder path_it)))"

definition findOrCreateFile ::
  "env \<Rightarrow> SystemData \<Rightarrow> heap \<Rightarrow> path \<Rightarrow> FileType \<Rightarrow> error + (addr option \<times> heap)" where
  "findOrCreateFile E system h path type =
     (case rootFolder system of
        None \<Rightarrow> Inl NullPointer
      | Some root \<Rightarrow>
         (case removeCommonPath E path (mPath (h ! root)) of
            Inl e \<Rightarrow> Inl e
          | Inr (relative, contains) \<Rightarrow>
              if \<not> contains then Inr (None, h)
              else Inr (walk E path type h root relative)))"

text \<open>
  In the words of the specification: walking from a node along the elements, some
  element has no child of that name under the node reached so far.
\<close>

fun missing_component :: "heap \<Rightarrow> addr \<Rightarrow> string list \<Rightarrow> bool" where
  "missing_component h node [] = False"
| "missing_component h node (c # cs) =
     (case find_child h (mChildren (h ! node)) c of
        None \<Rightarrow> True
      | Some child \<Rightarrow> missing_component h child cs)"

text \<open>
  The same with the claim's words taken by the letter: some element has no child of
  kind \<open>FOLDER\<close> and of that name under the node reached so far.
\<close>

fun find_folder_child :: "heap \<Rightarrow> addr list \<Rightarrow> string \<Rightarrow> addr option" where
  "find_folder_child h [] c = None"
| "find_folder_child h (child # children) c =
     (if mType (h ! child) = FOLDER \<and> filename (mPath (h ! child)) = [c] then Some child
      else find_folder_child h children c)"

fun missing_folder_component :: "heap \<Rightarrow> addr \<Rightarrow> string list \<Rightarrow> bool" where
  "missing_folder_component h node [] = False"
| "missing_folder_component h node (c # cs) =
     (case find_folder_child h (mChildren (h ! node)) c of
        None \<Rightarrow> True
      | Some child \<Rightarrow> missing_folder_component h child cs)"

text \<open>
  The node that the walk reaches from a node along elements that are all found;
  \<open>None\<close> when one of them is not.
\<close>

fun descend :: "heap \<Rightarrow> addr \<Rightarrow> string list \<Rightarrow> addr option" where
  "descend h node [] = Some node"
| "descend h node (c # cs) =
     (case find_child h (mChildren (h ! node)) c of
        None \<Rightarrow> None
      | Some child \<Rightarrow> descend h child cs)"

text \<open>
  What a walk from the store \<open>h\<close> to the store \<open>h'\<close> with result \<open>res\<close> keeps: the store
  only grows and stays well formed, the result is a valid pointer, the entries that
  were there keep type, path, parent and metadata, and every new entry other than
  the result is a folder whose path is the stem of its parent's path joined with an
  element of the walk.
\<close>

definition walk_inv :: "heap \<Rightarrow> string list \<Rightarrow> addr option \<Rightarrow> heap \<Rightarrow> bool" where
  "walk_inv h cs res h' =
     (length h \<le> length h' \<and> wf_heap h' \<and> (\<forall>r. res = Some r \<longrightarrow> r < length h')
      \<and> (\<forall>b<length h. mPath (h' ! b) = mPath (h ! b) \<and> mType (h' ! b) = mType (h ! b)
              \<and> mParent (h' ! b) = mParent (h ! b) \<and> metadata (h' ! b) = metadata (h ! b))
      \<and> (\<forall>b. length h \<le> b \<and> b < length h' \<and> res \<noteq> Some b \<longrightarrow>
             mType (h' ! b) = FOLDER
             \<and> (\<exists>pa c. pa < length h' \<and> c \<in> set cs \<and> mParent (h' ! b) = Some pa
                  \<and> mPath (h' ! b) = path_append (stem (mPath (h' ! pa))) [c])))"

section \<open>parseGamelist\<close>

text \<open>
  The gamelist file: absent, present but rejected by the XML parser, or a document
  given by its top-level nodes.
\<close>

datatype gamelist_file = NoFile | Unparsable | Document "xml_node list"

text \<open>\<open>node.child(k)\<close>: the first child element named \<open>k\<close>, if any.\<close>

definition child :: "xml_node \<Rightarrow> string \<Rightarrow> xml_node option" where
  "child n k = List.find (\<lambda>c. node_name c = k) (node_children n)"

text \<open>\<open>node.child(k).text().get()\<close>: empty when there is no such child.\<close>

definition child_text :: "xml_node \<Rightarrow> string \<Rightarrow> string" where
  "child_text n k = (case child n k of None \<Rightarrow> [] | Some c \<Rightarrow> node_text c)"

text \<open>The body of the inner loop, for one element \<open>fileNode\<close>.\<close>

definition load_element :: "env \<Rightarrow> SystemData \<Rightarrow> FileType \<Rightarrow> heap \<Rightarrow> xml_node \<Rightarrow> error + heap" where
  "load_element E system type h fileNode =
     (let path = path_of_string (child_text fileNode ''path'') in
      if \<not> fs_exists E path then Inr h
      else (case findOrCreateFile E system h path type of
              Inl e \<Rightarrow> Inl e
            | Inr (None, h') \<Rightarrow> Inr h'
            | Inr (Some file, h') \<Rightarrow>
                (let defaultName = md_get (metadata (h' ! file)) ''name'';
                     m = createFromXML E fileNode;
                     m' = (if md_get m ''name'' = [] then md_set m ''name'' defaultName else m)
                 in Inr (h'[file := (h' ! file)\<lparr>metadata := m'\<rparr>]))))"

text \<open>The inner loop: the children of the root named \<open>tag\<close>, in document order.\<close>

fun load_nodes :: "env \<Rightarrow> SystemData \<Rightarrow> FileType \<Rightarrow> string \<Rightarrow> xml_node list \<Rightarrow> heap \<Rightarrow> error + heap" where
  "load_nodes E system type tag [] h = Inr h"
| "load_nodes E system type tag (fileNode # rest) h =
     (if node_name fileNode = tag
      then (case load_element E system type h fileNode of
              Inl e \<Rightarrow> Inl e
            | Inr h' \<Rightarrow> load_nodes E system type tag rest h')
      else load_nodes E system type tag rest h)"

definition parseGamelist :: "env \<Rightarrow> SystemData \<Rightarrow> gamelist_file \<Rightarrow> heap \<Rightarrow> error + heap" where
  "parseGamelist E system file h =
     (case file of
        NoFile \<Rightarrow> Inr h
      | Unparsable \<Rightarrow> Inr h
      | Document doc \<Rightarrow>
         (case List.find (\<lambda>n. node_name n = ''gameList'') doc of
            None \<Rightarrow> Inr h
          | Some root \<Rightarrow>
             (case load_nodes E system GAME ''game'' (node_children root) h of
                Inl e \<Rightarrow> Inl e
              | Inr h' \<Rightarrow> load_nodes E system FOLDER ''folder'' (node_children root) h')))"

section \<open>addFileDataNode and updateGamelist\<close>

text \<open>
  \<open>parent\<close> is the list of the children of the parent node.  The new node is appended,
  filled by \<open>appendToXML\<close>, and then either removed again or given a leading
  \<open>path\<close> child.
\<close>

definition addFileDataNode :: "env \<Rightarrow> xml_node list \<Rightarrow> FileData \<Rightarrow> string \<Rightarrow> xml_node list" where
  "addFileDataNode E parent file tag =
     (let parent1 = parent @ [Element tag [] []];
          newNode = Element tag [] (appendToXML E (metadata file));
          parent2 = butlast parent1 @ [newNode]
      in if node_children newNode \<noteq> []
            \<and> child newNode ''name'' = Some (hd (node_children newNode))
            \<and> tl (node_children newNode) = []
            \<and> child_text newNode ''name'' = getCleanFileName E (mPath file)
         then butlast parent2
         else butlast parent2 @
              [Element tag [] (Element ''path'' (generic_string (mPath file)) []
                               # node_children newNode)])"

text \<open>
  The comparison of the scan in \<open>updateGamelist\<close>: \<open>nodePath == gamePath ||
  (fs::exists(nodePath) && fs::exists(gamePath) && fs::equivalent(nodePath, gamePath))\<close>.
\<close>

definition paths_match :: "env \<Rightarrow> path \<Rightarrow> path \<Rightarrow> bool" where
  "paths_match E nodePath gamePath =
     (nodePath = gamePath \<or>
      (fs_exists E nodePath \<and> fs_exists E gamePath \<and> fs_equivalent E nodePath gamePath))"

text \<open>
  The test of the scan for one element: the element is named \<open>tag\<close>, has a \<open>path\<close>
  child, and the path read from it compares equal to the entry's.
\<close>

definition node_matches :: "env \<Rightarrow> string \<Rightarrow> path \<Rightarrow> xml_node \<Rightarrow> bool" where
  "node_matches E tag gamePath fileNode =
     (node_name fileNode = tag \<and>
      (case child fileNode ''path'' of
         None \<Rightarrow> False
       | Some pathNode \<Rightarrow> paths_match E (path_of_string (node_text pathNode)) gamePath))"

text \<open>The scan: the first element that passes the test is removed, and the scan stops.\<close>

fun remove_existing :: "env \<Rightarrow> string \<Rightarrow> path \<Rightarrow> xml_node list \<Rightarrow> xml_node list" where
  "remove_existing E tag gamePath [] = []"
| "remove_existing E tag gamePath (fileNode # rest) =
     (if node_matches E tag gamePath fileNode then rest
      else fileNode # remove_existing E tag gamePath rest)"

definition tag_of :: "FileData \<Rightarrow> string" where
  "tag_of f = (if mType f = GAME then ''game'' else ''folder'')"

text \<open>The loop over \<open>files\<close>; \<open>root\<close> is the list of the children of the root element.\<close>

fun update_files :: "env \<Rightarrow> FileData list \<Rightarrow> xml_node list \<Rightarrow> xml_node list" where
  "update_files E [] root = root"
| "update_files E (f # fit) root =
     update_files E fit
       (addFileDataNode E (remove_existing E (tag_of f) (mPath f) root) f (tag_of f))"

record settings =
  DisableGamelistWrites :: bool
  IGNOREGAMELIST :: bool

text \<open>
  \<open>updateGamelist\<close> maps the gamelist file before the call to the file after it.  The
  file is left as it is when the function returns early or the write fails.
\<close>

definition updateGamelist ::
  "settings \<Rightarrow> env \<Rightarrow> SystemData \<Rightarrow> heap \<Rightarrow> gamelist_file \<Rightarrow> gamelist_file" where
  "updateGamelist cfg E system h file =
     (if DisableGamelistWrites cfg \<or> IGNOREGAMELIST cfg then file
      else
        (case (case file of
                 Unparsable \<Rightarrow> None
               | NoFile \<Rightarrow> Some [Element ''gameList'' [] []]
               | Document d \<Rightarrow> Some d) of
           None \<Rightarrow> file
         | Some doc \<Rightarrow>
            (case List.find (\<lambda>n. node_name n = ''gameList'') doc of
               None \<Rightarrow> file
             | Some root \<Rightarrow>
                (case rootFolder system of
                   None \<Rightarrow> file
                 | Some rf \<Rightarrow>
                    (let files = map (\<lambda>a. h ! a) (getFilesRecursive E h rf);
                         i = length (takeWhile (\<lambda>n. node_name n \<noteq> ''gameList'') doc);
                         root' = Element (node_name root) (node_text root)
                                   (update_files E files (node_children root))
                     in if save_file_ok E then Document (doc[i := root']) else file)))))"

text \<open>
  The children of the root element of a gamelist file: the elements the scan of
  \<open>updateGamelist\<close> looks at.  There is none without a document or without a root.
\<close>

definition root_children :: "gamelist_file \<Rightarrow> xml_node list" where
  "root_children file =
     (case file of
        Document doc \<Rightarrow>
          (case List.find (\<lambda>n. node_name n = ''gameList'') doc of
             Some root \<Rightarrow> node_children root
           | None \<Rightarrow> [])
      | _ \<Rightarrow> [])"

text \<open>The entries that \<open>updateGamelist\<close> goes through, in its order.\<close>

definition entries :: "env \<Rightarrow> SystemData \<Rightarrow> heap \<Rightarrow> FileData list" where
  "entries E system h =
     (case rootFolder system of
        None \<Rightarrow> []
      | Some rf \<Rightarrow> map (\<lambda>a. h ! a) (getFilesRecursive E h rf))"

text \<open>An element that passes the test of the scan for no entry of a list.\<close>

definition unmatched :: "env \<Rightarrow> FileData list \<Rightarrow> xml_node \<Rightarrow> bool" where
  "unmatched E files x = (\<forall>f \<in> set files. \<not> node_matches E (tag_of f) (mPath f) x)"

text \<open>
  The elements written for the entries of a list, each kept only if no later entry
  of the list matches it.
\<close>

fun surviving :: "env \<Rightarrow> FileData list \<Rightarrow> xml_node list" where
  "surviving E [] = []"
| "surviving E (f # fs) =
     filter (unmatched E fs) (addFileDataNode E [] f (tag_of f)) @ surviving E fs"

text \<open>\<open>fs::equivalent\<close> is symmetric and transitive on the paths that exist.\<close>

definition equivalence_ok :: "env \<Rightarrow> bool" where
  "equivalence_ok E =
     ((\<forall>p q. fs_exists E p \<and> fs_exists E q \<and> fs_equivalent E p q \<longrightarrow> fs_equivalent E q p)
      \<and> (\<forall>p q r. fs_exists E p \<and> fs_exists E q \<and> fs_exists E r
            \<and> fs_equivalent E p q \<and> fs_equivalent E q r \<longrightarrow> fs_equivalent E p r))"

section \<open>A small installation, for concrete runs\<close>

text \<open>
  Modelled from the spec: \<open>getFilesRecursive\<close> is missing; the entries below a node in
  pre-order, every child followed by its own descendants.  The bound is the depth.
\<close>

fun files_below :: "nat \<Rightarrow> heap \<Rightarrow> addr \<Rightarrow> addr list" where
  "files_below 0 h a = []"
| "files_below (Suc n) h a = concat (map (\<lambda>c. c # files_below n h c) (mChildren (h ! a)))"

text \<open>
  A disk with the directories \<open>/home/pi/roms/nes\<close> and \<open>/roms/nes\<close>; in the latter
  \<open>link.nes\<close> is a symbolic link to \<open>real.nes\<close>.  Each existing path is listed with its
  canonical form.
\<close>

definition demo_disk :: "(path \<times> path) list" where
  "demo_disk =
     [([''/'', ''home'', ''pi'', ''roms'', ''nes'', ''.''], [''/'', ''home'', ''pi'', ''roms'', ''nes'']),
      ([''/'', ''home'', ''pi'', ''roms'', ''nes''], [''/'', ''home'', ''pi'', ''roms'', ''nes'']),
      ([''/'', ''home'', ''pi'', ''roms'', ''nes'', ''foo'', ''bar.nes''],
       [''/'', ''home'', ''pi'', ''roms'', ''nes'', ''foo'', ''bar.nes'']),
      ([''/'', ''roms'', ''nes''], [''/'', ''roms'', ''nes'']),
      ([''/'', ''roms'', ''nes'', ''a.nes''], [''/'', ''roms'', ''nes'', ''a.nes'']),
      ([''/'', ''roms'', ''nes'', ''b.nes''], [''/'', ''roms'', ''nes'', ''b.nes'']),
      ([''/'', ''roms'', ''nes'', ''foo''], [''/'', ''roms'', ''nes'', ''foo'']),
      ([''/'', ''roms'', ''nes'', ''foo'', ''bar.nes''], [''/'', ''roms'', ''nes'', ''foo'', ''bar.nes'']),
      ([''/'', ''roms'', ''nes'', ''real.nes''], [''/'', ''roms'', ''nes'', ''real.nes'']),
      ([''/'', ''roms'', ''nes'', ''link.nes''], [''/'', ''roms'', ''nes'', ''real.nes''])]"

definition demo_env :: env where
  "demo_env =
     \<lparr>fs_canonical = map_of demo_disk,
      fs_exists = (\<lambda>p. map_of demo_disk p \<noteq> None),
      fs_equivalent = (\<lambda>a b. map_of demo_disk a = map_of demo_disk b),
      createFromXML = (\<lambda>n. map (\<lambda>c. (node_name c, node_text c))
                              (filter (\<lambda>c. node_name c \<noteq> ''path'') (node_children n))),
      appendToXML = (\<lambda>m. map (\<lambda>kv. Element (fst kv) (snd kv) []) (filter (\<lambda>kv. snd kv \<noteq> []) m)),
      getCleanFileName = (\<lambda>p. generic_string (stem p)),
      getFilesRecursive = (\<lambda>h a. files_below (length h) h a),
      save_file_ok = True\<rparr>"

definition demo_system :: SystemData where
  "demo_system = \<lparr>rootFolder = Some 0\<rparr>"

text \<open>The tree of a system rooted at \<open>/roms/nes\<close> with no entry yet.\<close>

definition demo_root :: FileData where
  "demo_root = \<lparr>mType = FOLDER, mPath = [''/'', ''roms'', ''nes''],
                 metadata = [(''name'', ''nes'')], mChildren = [], mParent = None\<rparr>"

definition demo_heap :: heap where
  "demo_heap = [demo_root]"

definition demo_settings :: settings where
  "demo_settings = \<lparr>DisableGamelistWrites = False, IGNOREGAMELIST = False\<rparr>"

text \<open>
  The tree after a scan that found \<open>a.nes\<close> and \<open>b.nes\<close>; the first has been given the
  name \<open>Z\<close>, the second has nothing but its default name.
\<close>

definition demo_tree :: heap where
  "demo_tree =
     [\<lparr>mType = FOLDER, mPath = [''/'', ''roms'', ''nes''],
       metadata = [(''name'', ''nes'')], mChildren = [1, 2], mParent = None\<rparr>,
      \<lparr>mType = GAME, mPath = [''/'', ''roms'', ''nes'', ''a.nes''],
       metadata = [(''name'', ''Z'')], mChildren = [], mParent = Some 0\<rparr>,
      \<lparr>mType = GAME, mPath = [''/'', ''roms'', ''nes'', ''b.nes''],
       metadata = [(''name'', ''b'')], mChildren = [], mParent = Some 0\<rparr>]"

text \<open>A gamelist with an element for \<open>a.nes\<close> and one for a file that is gone.\<close>

definition demo_gamelist :: gamelist_file where
  "demo_gamelist = Document
     [Element ''gameList'' []
        [Element ''game'' [] [Element ''path'' ''/roms/nes/a.nes'' [], Element ''name'' ''Old A'' []],
         Element ''game'' [] [Element ''path'' ''/roms/nes/gone.nes'' [], Element ''name'' ''Gone'' []]]]"

text \<open>A gamelist with two elements for \<open>a.nes\<close>.\<close>

definition demo_gamelist_twice :: gamelist_file where
  "demo_gamelist_twice = Document
     [Element ''gameList'' []
        [Element ''game'' [] [Element ''path'' ''/roms/nes/a.nes'' [], Element ''name'' ''X'' []],
         Element ''game'' [] [Element ''path'' ''/roms/nes/a.nes'' [], Element ''name'' ''Y'' []]]]"

section \<open>Properties of removeCommonPath\<close>

lemma find_divergence_prefix: "find_divergence (xs @ ys) xs b = (ys, [], True)"
  by (induction xs arbitrary: b)
     (simp_all add: find_divergence.simps [of "_ # _"] find_divergence.simps [of _ "[]"] deref_def)

lemma append_rest_filter: "append_rest res its = res @ filter (\<lambda>c. c \<noteq> ''.'') its"
  by (induction its arbitrary: res) (simp_all add: path_append_def)

text \<open>
  Claim C1.  Let both paths exist, with canonical forms \<open>cp\<close> for the path and \<open>cr\<close> for
  the root, and let \<open>cp\<close> lie strictly inside \<open>cr\<close>: the elements of \<open>cr\<close> are a proper
  prefix of those of \<open>cp\<close>.  Then \<open>removeCommonPath\<close> answers \<open>contains = true\<close>, the
  relative path it returns consists of the elements of \<open>cp\<close> after the root, without
  the elements \<open>.\<close>, and (no element of a canonical form being \<open>.\<close>) the canonical root
  joined with the relative path is the canonical form of the path.
\<close>

theorem removeCommonPath_contained:
  assumes "fs_canonical E p = Some cp" and "fs_canonical E r = Some cr"
    and "cr \<noteq> []" and "strict_prefix cr cp"
  shows "\<exists>rel. removeCommonPath E p r = Inr (rel, True)
           \<and> rel = filter (\<lambda>c. c \<noteq> ''.'') (drop (length cr) cp)
           \<and> (''.'' \<notin> set cp \<longrightarrow> path_append cr rel = cp)"
proof -
  from assms(4) obtain s where cp: "cp = cr @ s"
    by (auto simp: strict_prefix_def prefix_def)
  from assms(3) have rp: "root_path (cr @ s) = root_path cr"
    by (cases cr) (simp_all add: root_path_def)
  have nodot: "''.'' \<notin> set s \<Longrightarrow> filter (\<lambda>c. c \<noteq> ''.'') s = s"
    by (induction s) auto
  show ?thesis
    using assms(1,2) rp nodot
    by (simp add: removeCommonPath_def cp find_divergence_prefix append_rest_filter path_append_def)
qed

theorem removeCommonPath_contained_witness:
  "fs_canonical demo_env [''/'', ''home'', ''pi'', ''roms'', ''nes'', ''foo'', ''bar.nes'']
     = Some [''/'', ''home'', ''pi'', ''roms'', ''nes'', ''foo'', ''bar.nes'']
   \<and> fs_canonical demo_env [''/'', ''home'', ''pi'', ''roms'', ''nes'', ''.'']
     = Some [''/'', ''home'', ''pi'', ''roms'', ''nes'']
   \<and> strict_prefix [''/'', ''home'', ''pi'', ''roms'', ''nes'']
        [''/'', ''home'', ''pi'', ''roms'', ''nes'', ''foo'', ''bar.nes'']
   \<and> removeCommonPath demo_env [''/'', ''home'', ''pi'', ''roms'', ''nes'', ''foo'', ''bar.nes'']
        [''/'', ''home'', ''pi'', ''roms'', ''nes'', ''.''] = Inr ([''foo'', ''bar.nes''], True)
   \<and> path_append [''/'', ''home'', ''pi'', ''roms'', ''nes''] [''foo'', ''bar.nes'']
     = [''/'', ''home'', ''pi'', ''roms'', ''nes'', ''foo'', ''bar.nes'']"
proof -
  have h1: "fs_canonical demo_env [''/'', ''home'', ''pi'', ''roms'', ''nes'', ''foo'', ''bar.nes'']
     = Some [''/'', ''home'', ''pi'', ''roms'', ''nes'', ''foo'', ''bar.nes'']"
    by (simp add: demo_env_def demo_disk_def)
  have h2: "fs_canonical demo_env [''/'', ''home'', ''pi'', ''roms'', ''nes'', ''.'']
     = Some [''/'', ''home'', ''pi'', ''roms'', ''nes'']"
    by (simp add: demo_env_def demo_disk_def)
  have h3: "[''/'', ''home'', ''pi'', ''roms'', ''nes''] \<noteq> []"
    by simp
  have h4: "strict_prefix [''/'', ''home'', ''pi'', ''roms'', ''nes'']
        [''/'', ''home'', ''pi'', ''roms'', ''nes'', ''foo'', ''bar.nes'']"
    by simp
  from removeCommonPath_contained [OF h1 h2 h3 h4] h1 h2 h4 show ?thesis
    by (simp add: path_append_def)
qed

text \<open>
  Whenever the first loop has passed every element of the root, which is the only
  way to the answer \<open>contains = true\<close>, its condition has been evaluated with
  \<open>itr_relative_to\<close> equal to \<open>r.end()\<close>, hence has dereferenced that iterator.
\<close>

lemma find_divergence_end_deref:
  "find_divergence p r b = (ip, ir, e) \<Longrightarrow> ir = [] \<Longrightarrow> e"
  by (induction p r b rule: find_divergence.induct)
     (subst (asm) (2) find_divergence.simps, auto simp: Let_def split: if_splits)

text \<open>
  Claim C10.  The claim is that the walk never dereferences an iterator equal to the
  end of either sequence.  On the example of the source's own comment, where the
  canonical root is a proper prefix of the canonical path, the walk stops with
  \<open>itr_relative_to\<close> at \<open>r.end()\<close> after an evaluation of the loop condition that has
  dereferenced it: the flag is set.
\<close>

theorem find_divergence_dereferences_end:
  "find_divergence [''/'', ''home'', ''pi'', ''roms'', ''nes'', ''foo'', ''bar.nes'']
     [''/'', ''home'', ''pi'', ''roms'', ''nes''] False
   = ([''foo'', ''bar.nes''], [], True)"
  using find_divergence_prefix [of "[''/'', ''home'', ''pi'', ''roms'', ''nes'']" "[''foo'', ''bar.nes'']" False]
  by simp

section \<open>Properties of findOrCreateFile for folders\<close>

lemma walk_FOLDER_heap: "walk E path FOLDER h node cs = (res, h') \<Longrightarrow> h' = h"
  by (induction cs arbitrary: node) (auto split: option.splits if_splits)

lemma walk_FOLDER_missing:
  "missing_component h node cs \<Longrightarrow> walk E path FOLDER h node cs = (None, h)"
  by (induction cs arbitrary: node) (auto split: option.splits)

text \<open>A request for a folder never changes the store, whatever it returns.\<close>

lemma findOrCreateFile_FOLDER_heap:
  "findOrCreateFile E system h path FOLDER = Inr (res, h') \<Longrightarrow> h' = h"
  by (auto simp: findOrCreateFile_def split: option.splits sum.splits if_splits
           dest: walk_FOLDER_heap)

text \<open>
  Claim C3 as stated fails.  The search compares file names and does not look at the
  kind of a child.  In the tree with the game \<open>a.nes\<close> a request of kind \<open>FOLDER\<close> for
  \<open>/roms/nes/a.nes\<close> meets no entry of kind \<open>FOLDER\<close> of that name, yet it does not
  fail: it returns the entry of the game.
\<close>

theorem findOrCreateFile_folder_finds_game:
  "removeCommonPath demo_env [''/'', ''roms'', ''nes'', ''a.nes''] (mPath (demo_tree ! 0))
     = Inr ([''a.nes''], True)
   \<and> missing_folder_component demo_tree 0 [''a.nes'']
   \<and> findOrCreateFile demo_env demo_system demo_tree [''/'', ''roms'', ''nes'', ''a.nes''] FOLDER
       = Inr (Some 1, demo_tree)
   \<and> mType (demo_tree ! 1) = GAME"
  by (simp add: findOrCreateFile_def removeCommonPath_def demo_env_def demo_disk_def
                demo_system_def demo_tree_def root_path_def
                find_divergence.simps deref_def path_append_def filename_def)

text \<open>
  Claim C3, as amended.  Let the path of a request of kind \<open>FOLDER\<close> be contained in the
  root, with relative path \<open>relative\<close>, and let the walk from the root along \<open>relative\<close>
  reach an element, intermediate or last, for which the node reached has no child
  of that name, of either kind.  Then \<open>findOrCreateFile\<close> returns \<open>NULL\<close> and the store
  of entries after the call is the store before it.
\<close>

theorem findOrCreateFile_folder_missing:
  assumes "rootFolder system = Some root"
    and "removeCommonPath E path (mPath (h ! root)) = Inr (relative, True)"
    and "missing_component h root relative"
  shows "findOrCreateFile E system h path FOLDER = Inr (None, h)"
  using assms by (simp add: findOrCreateFile_def walk_FOLDER_missing)

theorem findOrCreateFile_folder_missing_witness:
  "rootFolder demo_system = Some 0
   \<and> removeCommonPath demo_env [''/'', ''roms'', ''nes'', ''foo''] (mPath (demo_heap ! 0))
       = Inr ([''foo''], True)
   \<and> missing_component demo_heap 0 [''foo'']
   \<and> findOrCreateFile demo_env demo_system demo_heap [''/'', ''roms'', ''nes'', ''foo''] FOLDER
       = Inr (None, demo_heap)"
proof -
  have h1: "rootFolder demo_system = Some 0"
    by (simp add: demo_system_def)
  have h2: "removeCommonPath demo_env [''/'', ''roms'', ''nes'', ''foo''] (mPath (demo_heap ! 0))
              = Inr ([''foo''], True)"
    by (simp add: removeCommonPath_def demo_env_def demo_disk_def demo_heap_def demo_root_def
                  root_path_def find_divergence.simps deref_def path_append_def)
  have h3: "missing_component demo_heap 0 [''foo'']"
    by (simp add: demo_heap_def demo_root_def)
  from findOrCreateFile_folder_missing [OF h1 h2 h3] h1 h2 h3 show ?thesis
    by simp
qed

section \<open>Properties of parseGamelist: stale elements\<close>

lemma load_element_stale:
  "\<not> fs_exists E (path_of_string (child_text fileNode ''path'')) \<Longrightarrow>
   load_element E system type h fileNode = Inr h"
  by (simp add: load_element_def)

lemma load_nodes_skip:
  "(\<And>h. load_element E system type h fileNode = Inr h) \<Longrightarrow>
   load_nodes E system type tag (before @ fileNode # after) h
     = load_nodes E system type tag (before @ after) h"
  by (induction before arbitrary: h) (auto split: sum.splits)

lemma find_append_first:
  "List.find P (xs @ ys) = (case List.find P xs of None \<Rightarrow> List.find P ys | Some x \<Rightarrow> Some x)"
  by (induction xs) simp_all

text \<open>
  Claim C6.  Let the \<open>path\<close> child of an element name a path that does not exist.  Then
  the loader's step for that element returns the store unchanged, so that no entry
  is created or modified; and the element does not count: each pass of the loader,
  and \<open>parseGamelist\<close> as a whole, give what they give on the document without it.
\<close>

theorem stale_element_skipped:
  assumes "\<not> fs_exists E (path_of_string (child_text fileNode ''path''))"
  shows "load_element E system type h fileNode = Inr h
       \<and> load_nodes E system type tag (before @ fileNode # after) h
          = load_nodes E system type tag (before @ after) h
       \<and> parseGamelist E system
            (Document (pre @ Element ''gameList'' t (before @ fileNode # after) # post)) h
          = parseGamelist E system
            (Document (pre @ Element ''gameList'' t (before @ after) # post)) h"
proof -
  have skip: "\<And>ty tg h. load_nodes E system ty tg (before @ fileNode # after) h
          = load_nodes E system ty tg (before @ after) h"
    using assms by (intro load_nodes_skip load_element_stale)
  show ?thesis
    using assms
    by (cases "List.find (\<lambda>n. node_name n = ''gameList'') pre")
       (simp_all add: load_element_stale skip parseGamelist_def find_append_first
                 split: sum.splits)
qed

theorem stale_element_skipped_witness:
  "\<not> fs_exists demo_env (path_of_string (child_text
        (Element ''game'' [] [Element ''path'' ''/roms/nes/gone.nes'' [],
                              Element ''name'' ''Gone'' []]) ''path''))
   \<and> load_element demo_env demo_system GAME demo_heap
        (Element ''game'' [] [Element ''path'' ''/roms/nes/gone.nes'' [],
                              Element ''name'' ''Gone'' []]) = Inr demo_heap
   \<and> parseGamelist demo_env demo_system
        (Document [Element ''gameList'' []
           [Element ''game'' [] [Element ''path'' ''/roms/nes/gone.nes'' [],
                                 Element ''name'' ''Gone'' []]]]) demo_heap
      = Inr demo_heap"
proof -
  have h: "\<not> fs_exists demo_env (path_of_string (child_text
        (Element ''game'' [] [Element ''path'' ''/roms/nes/gone.nes'' [],
                              Element ''name'' ''Gone'' []]) ''path''))"
    by (simp add: child_text_def child_def path_of_string_def demo_env_def demo_disk_def)
  have e: "parseGamelist demo_env demo_system (Document [Element ''gameList'' [] []]) demo_heap
             = Inr demo_heap"
    by (simp add: parseGamelist_def)
  from stale_element_skipped
         [OF h, of demo_system GAME demo_heap "''game''" "[]" "[]" "[]" "[]" "[]"] h e
  show ?thesis by simp
qed

section \<open>Properties of addFileDataNode\<close>

text \<open>
  Claim C7.  After the metadata has been written with defaults left out, the new
  element is discarded, and the parent is as before, exactly when its content is
  a single child named \<open>name\<close> whose text is the default name derived from the
  entry's path.  Otherwise the element stays, as the last child of the parent, with
  a \<open>path\<close> child holding the entry's path in generic (slash separated) form in front
  of the metadata children.
\<close>

theorem addFileDataNode_result:
  "addFileDataNode E parent file tag =
     (if (\<exists>c. appendToXML E (metadata file) = [c] \<and> node_name c = ''name''
              \<and> node_text c = getCleanFileName E (mPath file))
      then parent
      else parent @ [Element tag [] (Element ''path'' (generic_string (mPath file)) []
                                     # appendToXML E (metadata file))])"
proof (cases "appendToXML E (metadata file)")
  case Nil
  then show ?thesis by (simp add: addFileDataNode_def)
next
  case (Cons c cs)
  then show ?thesis
    by (cases cs) (auto simp: addFileDataNode_def child_def child_text_def Let_def)
qed

theorem addFileDataNode_result_witness:
  "addFileDataNode demo_env []
      \<lparr>mType = GAME, mPath = [''/'', ''roms'', ''nes'', ''b.nes''],
       metadata = [(''name'', ''b'')], mChildren = [], mParent = Some 0\<rparr> ''game'' = []
   \<and> addFileDataNode demo_env []
      \<lparr>mType = GAME, mPath = [''/'', ''roms'', ''nes'', ''a.nes''],
       metadata = [(''name'', ''Custom A'')], mChildren = [], mParent = Some 0\<rparr> ''game''
     = [Element ''game'' [] [Element ''path'' ''/roms/nes/a.nes'' [],
                             Element ''name'' ''Custom A'' []]]"
  using addFileDataNode_result [of demo_env "[]"
      "\<lparr>mType = GAME, mPath = [''/'', ''roms'', ''nes'', ''b.nes''],
        metadata = [(''name'', ''b'')], mChildren = [], mParent = Some 0\<rparr>" "''game''"]
    addFileDataNode_result [of demo_env "[]"
      "\<lparr>mType = GAME, mPath = [''/'', ''roms'', ''nes'', ''a.nes''],
        metadata = [(''name'', ''Custom A'')], mChildren = [], mParent = Some 0\<rparr>" "''game''"]
  by (simp add: demo_env_def stem_def stem_of_name_def)

section \<open>Properties of findOrCreateFile: created folders\<close>

lemma find_child_Some:
  "find_child h cs c = Some a \<Longrightarrow> a \<in> set cs \<and> filename (mPath (h ! a)) = [c]"
  by (induction cs) (auto split: if_splits)

lemma addChild_new_length: "length (addChild (h @ [n]) node (length h)) = Suc (length h)"
  by (simp add: addChild_def Let_def)

lemma addChild_new_at_new:
  "node < length h \<Longrightarrow> addChild (h @ [n]) node (length h) ! length h = n\<lparr>mParent := Some node\<rparr>"
  by (simp add: addChild_def Let_def nth_append)

lemma addChild_new_at_node:
  "node < length h \<Longrightarrow>
   addChild (h @ [n]) node (length h) ! node = (h ! node)\<lparr>mChildren := mChildren (h ! node) @ [length h]\<rparr>"
  by (simp add: addChild_def Let_def nth_append)

lemma addChild_new_at_other:
  "b < length h \<Longrightarrow> b \<noteq> node \<Longrightarrow> addChild (h @ [n]) node (length h) ! b = h ! b"
  by (simp add: addChild_def Let_def nth_append)

lemma addChild_new_fields:
  assumes "node < length h" and "b < length h"
  shows "mPath (addChild (h @ [n]) node (length h) ! b) = mPath (h ! b)"
    and "mType (addChild (h @ [n]) node (length h) ! b) = mType (h ! b)"
    and "mParent (addChild (h @ [n]) node (length h) ! b) = mParent (h ! b)"
    and "metadata (addChild (h @ [n]) node (length h) ! b) = metadata (h ! b)"
  using assms
  by (cases "b = node"; simp add: addChild_new_at_node addChild_new_at_other)+

lemma addChild_new_wf:
  assumes "wf_heap h" and "node < length h" and "mChildren n = []"
  shows "wf_heap (addChild (h @ [n]) node (length h))"
  unfolding wf_heap_def
proof (intro allI impI ballI)
  fix a c
  assume a: "a < length (addChild (h @ [n]) node (length h))"
    and c: "c \<in> set (mChildren (addChild (h @ [n]) node (length h) ! a))"
  from a have a': "a < Suc (length h)" by (simp add: addChild_new_length)
  consider "a = length h" | "a = node" | "a < length h" "a \<noteq> node"
    using a' by linarith
  then have "c < Suc (length h)"
  proof cases
    case 1
    with c assms show ?thesis by (simp add: addChild_new_at_new)
  next
    case 2
    with c assms show ?thesis
      by (auto simp: addChild_new_at_node wf_heap_def less_Suc_eq)
  next
    case 3
    with c assms show ?thesis
      by (auto simp: addChild_new_at_other wf_heap_def less_Suc_eq)
  qed
  then show "c < length (addChild (h @ [n]) node (length h))"
    by (simp add: addChild_new_length)
qed

lemma walk_inv_refl: "wf_heap h \<Longrightarrow> (\<forall>r. res = Some r \<longrightarrow> r < length h) \<Longrightarrow> walk_inv h cs res h"
  by (auto simp: walk_inv_def)

lemma walk_inv_tail: "walk_inv h cs res h' \<Longrightarrow> walk_inv h (c # cs) res h'"
  unfolding walk_inv_def by (metis list.set_intros(2))

lemma walk_inv_leaf:
  assumes "wf_heap h" and "node < length h" and "mChildren n = []"
  shows "walk_inv h cs (Some (length h)) (addChild (h @ [n]) node (length h))"
  using assms
  by (auto simp: walk_inv_def addChild_new_length addChild_new_wf addChild_new_fields)

lemma walk_inv_folder:
  assumes wf: "wf_heap h" and node: "node < length h"
    and n: "n = new_FileData E FOLDER (path_append (stem (mPath (h ! node))) [c])"
    and inv: "walk_inv (addChild (h @ [n]) node (length h)) cs res h'"
  shows "walk_inv h (c # cs) res h'"
proof -
  let ?h2 = "addChild (h @ [n]) node (length h)"
  have len2: "length ?h2 = Suc (length h)" by (simp add: addChild_new_length)
  from inv have le: "length ?h2 \<le> length h'" and wf': "wf_heap h'"
    and resv: "\<forall>r. res = Some r \<longrightarrow> r < length h'"
    and old: "\<And>b. b < length ?h2 \<Longrightarrow> mPath (h' ! b) = mPath (?h2 ! b) \<and> mType (h' ! b) = mType (?h2 ! b)
              \<and> mParent (h' ! b) = mParent (?h2 ! b) \<and> metadata (h' ! b) = metadata (?h2 ! b)"
    and new: "\<And>b. length ?h2 \<le> b \<Longrightarrow> b < length h' \<Longrightarrow> res \<noteq> Some b \<Longrightarrow>
             mType (h' ! b) = FOLDER
             \<and> (\<exists>pa c. pa < length h' \<and> c \<in> set cs \<and> mParent (h' ! b) = Some pa
                  \<and> mPath (h' ! b) = path_append (stem (mPath (h' ! pa))) [c])"
    unfolding walk_inv_def by blast+
  have oldh: "mPath (h' ! b) = mPath (h ! b) \<and> mType (h' ! b) = mType (h ! b)
              \<and> mParent (h' ! b) = mParent (h ! b) \<and> metadata (h' ! b) = metadata (h ! b)"
    if "b < length h" for b
    using old [of b] that node len2 by (simp add: addChild_new_fields)
  have fold: "mType (h' ! length h) = FOLDER \<and> mParent (h' ! length h) = Some node
       \<and> mPath (h' ! length h) = path_append (stem (mPath (h' ! node))) [c]"
    using old [of "length h"] oldh [OF node] node len2
    by (simp add: addChild_new_at_new n new_FileData_def)
  have newh: "mType (h' ! b) = FOLDER
             \<and> (\<exists>pa c'. pa < length h' \<and> c' \<in> set (c # cs) \<and> mParent (h' ! b) = Some pa
                  \<and> mPath (h' ! b) = path_append (stem (mPath (h' ! pa))) [c'])"
    if b: "length h \<le> b" "b < length h'" "res \<noteq> Some b" for b
  proof (cases "b = length h")
    case True
    have "node < length h'" using node le len2 by simp
    with fold True show ?thesis by auto
  next
    case False
    with b have "length ?h2 \<le> b" by (simp add: len2)
    from new [OF this b(2,3)] show ?thesis by auto
  qed
  show ?thesis
    unfolding walk_inv_def using le len2 wf' resv oldh newh by auto
qed

lemma walk_invariant:
  "wf_heap h \<Longrightarrow> node < length h \<Longrightarrow> walk E path type h node cs = (res, h') \<Longrightarrow>
   walk_inv h cs res h'"
proof (induction cs arbitrary: h node)
  case Nil
  then show ?case by (simp add: walk_inv_refl)
next
  case (Cons c cs)
  show ?case
  proof (cases "find_child h (mChildren (h ! node)) c")
    case (Some child)
    with Cons.prems have cv: "child < length h"
      by (auto simp: wf_heap_def dest!: find_child_Some)
    show ?thesis
    proof (cases "cs = []")
      case True
      with Some Cons.prems cv have "res = Some child" and "h' = h" by simp_all
      with Cons.prems(1) cv show ?thesis by (simp add: walk_inv_refl)
    next
      case False
      with Some Cons.prems have "walk E path type h child cs = (res, h')" by simp
      from Cons.IH [OF Cons.prems(1) cv this] show ?thesis by (rule walk_inv_tail)
    qed
  next
    case None
    show ?thesis
    proof (cases "type = FOLDER")
      case True
      with None Cons.prems have "res = None" and "h' = h" by (simp_all split: if_splits)
      with Cons.prems(1) show ?thesis by (simp add: walk_inv_refl)
    next
      case False
      show ?thesis
      proof (cases "cs = []")
        case True
        with None False Cons.prems
        have "res = Some (length h)"
          and "h' = addChild (h @ [new_FileData E type path]) node (length h)"
          by (simp_all add: alloc_def)
        with Cons.prems(1,2) show ?thesis
          by (simp add: walk_inv_leaf new_FileData_def)
      next
        case cs: False
        let ?n = "new_FileData E FOLDER (path_append (stem (mPath (h ! node))) [c])"
        let ?h2 = "addChild (h @ [?n]) node (length h)"
        from None False cs Cons.prems
        have w: "walk E path type ?h2 (length h) cs = (res, h')"
          by (simp add: alloc_def)
        have "wf_heap ?h2"
          using Cons.prems(1,2) by (simp add: addChild_new_wf new_FileData_def)
        moreover have "length h < length ?h2" by (simp add: addChild_new_length)
        ultimately have "walk_inv ?h2 cs res h'"
          using w by (rule Cons.IH)
        then show ?thesis
          by (rule walk_inv_folder [OF Cons.prems(1) Cons.prems(2) refl])
      qed
    qed
  qed
qed

lemma stem_length: "length (stem p) \<le> 1"
  by (simp add: stem_def Let_def)

lemma findOrCreateFile_inv:
  assumes "wf_heap h" and "rootFolder system = Some root" and "root < length h"
    and "findOrCreateFile E system h path type = Inr (res, h')"
  shows "\<exists>cs. walk_inv h cs res h'"
proof -
  from assms(2,4) consider "res = None" "h' = h"
    | relative where "walk E path type h root relative = (res, h')"
    by (auto simp: findOrCreateFile_def split: sum.splits if_splits)
  then show ?thesis
  proof cases
    case 1
    with assms(1) show ?thesis by (auto simp: walk_inv_refl)
  next
    case 2
    from walk_invariant [OF assms(1,3) this] show ?thesis ..
  qed
qed

text \<open>
  Every entry that a request of kind \<open>GAME\<close> creates, other than the entry it returns,
  is a folder whose path is the stem of its parent's path joined with one name.
\<close>

lemma findOrCreateFile_created_folder_path:
  assumes "wf_heap h" and "rootFolder system = Some root" and "root < length h"
    and "findOrCreateFile E system h path GAME = Inr (res, h')"
    and "length h \<le> b" and "b < length h'" and "res \<noteq> Some b"
  shows "mType (h' ! b) = FOLDER
       \<and> (\<exists>pa c. pa < length h' \<and> mParent (h' ! b) = Some pa
              \<and> mPath (h' ! b) = path_append (stem (mPath (h' ! pa))) [c]
              \<and> (2 \<le> length (mPath (h' ! pa)) \<longrightarrow>
                   mPath (h' ! b) \<noteq> path_append (mPath (h' ! pa)) [c]))"
proof -
  from findOrCreateFile_inv [OF assms(1-4)] obtain cs where "walk_inv h cs res h'" ..
  with assms(5-7) obtain pa c where ty: "mType (h' ! b) = FOLDER"
    and pa: "pa < length h'" "mParent (h' ! b) = Some pa"
      "mPath (h' ! b) = path_append (stem (mPath (h' ! pa))) [c]"
    unfolding walk_inv_def by blast
  have "path_append (stem p) [c] \<noteq> path_append p [c]" if "2 \<le> length p" for p :: path
    using that stem_length [of p] by (auto simp: path_append_def)
  with ty pa show ?thesis by auto
qed

lemma descend_valid:
  "wf_heap h \<Longrightarrow> node < length h \<Longrightarrow> descend h node pre = Some n \<Longrightarrow> n < length h"
proof (induction pre arbitrary: node)
  case Nil
  then show ?case by simp
next
  case (Cons c pre)
  then obtain child where ch: "find_child h (mChildren (h ! node)) c = Some child"
    and d: "descend h child pre = Some n"
    by (auto split: option.splits)
  from ch Cons.prems(1,2) have "child < length h"
    by (auto simp: wf_heap_def dest!: find_child_Some)
  from Cons.IH [OF Cons.prems(1) this d] show ?case .
qed

lemma walk_descend:
  "descend h node pre = Some n \<Longrightarrow> post \<noteq> [] \<Longrightarrow>
   walk E path type h node (pre @ post) = walk E path type h n post"
  by (induction pre arbitrary: node) (auto split: option.splits)

lemma walk_creates_chain:
  "wf_heap h \<Longrightarrow> node < length h \<Longrightarrow> find_child h (mChildren (h ! node)) c = None \<Longrightarrow>
   type \<noteq> FOLDER \<Longrightarrow> walk E path type h node (c # cs) = (res, h') \<Longrightarrow>
   length h' = length h + length cs + 1 \<and> res = Some (length h + length cs)
   \<and> (\<forall>i < length cs.
         mType (h' ! (length h + i)) = FOLDER
         \<and> mParent (h' ! (length h + i)) = Some (if i = 0 then node else length h + i - 1)
         \<and> mPath (h' ! (length h + i))
             = path_append (stem (mPath (h' ! (if i = 0 then node else length h + i - 1))))
                 [(c # cs) ! i])"
proof (induction cs arbitrary: h node c)
  case Nil
  then show ?case by (auto simp: alloc_def addChild_new_length)
next
  case (Cons c' cs)
  note wf = Cons.prems(1) and node = Cons.prems(2)
  let ?n = "new_FileData E FOLDER (path_append (stem (mPath (h ! node))) [c])"
  let ?h2 = "addChild (h @ [?n]) node (length h)"
  from Cons.prems(3,4,5) have w2: "walk E path type ?h2 (length h) (c' # cs) = (res, h')"
    by (simp add: alloc_def)
  have wf2: "wf_heap ?h2"
    using wf node by (simp add: addChild_new_wf new_FileData_def)
  have l2: "length ?h2 = Suc (length h)" by (simp add: addChild_new_length)
  then have f2: "length h < length ?h2" by simp
  have new2: "?h2 ! length h = ?n\<lparr>mParent := Some node\<rparr>"
    using node by (rule addChild_new_at_new)
  then have none2: "find_child ?h2 (mChildren (?h2 ! length h)) c' = None"
    by (simp add: new_FileData_def)
  from Cons.IH [OF wf2 f2 none2 Cons.prems(4) w2]
  have len: "length h' = length ?h2 + length cs + 1"
    and res: "res = Some (length ?h2 + length cs)"
    and rest: "\<And>i. i < length cs \<Longrightarrow>
         mType (h' ! (length ?h2 + i)) = FOLDER
         \<and> mParent (h' ! (length ?h2 + i)) = Some (if i = 0 then length h else length ?h2 + i - 1)
         \<and> mPath (h' ! (length ?h2 + i))
             = path_append (stem (mPath (h' ! (if i = 0 then length h else length ?h2 + i - 1))))
                 [(c' # cs) ! i]"
    by blast+
  from walk_invariant [OF wf2 f2 w2]
  have keep: "\<And>b. b < length ?h2 \<Longrightarrow> mPath (h' ! b) = mPath (?h2 ! b)
                 \<and> mType (h' ! b) = mType (?h2 ! b) \<and> mParent (h' ! b) = mParent (?h2 ! b)"
    by (simp add: walk_inv_def)
  have pnode: "mPath (h' ! node) = mPath (h ! node)"
    using keep [of node] node l2 by (simp add: addChild_new_fields)
  have first: "mType (h' ! length h) = FOLDER \<and> mParent (h' ! length h) = Some node
       \<and> mPath (h' ! length h) = path_append (stem (mPath (h' ! node))) [c]"
    using keep [of "length h"] f2 new2 pnode by (simp add: new_FileData_def)
  have "mType (h' ! (length h + j)) = FOLDER
         \<and> mParent (h' ! (length h + j)) = Some (if j = 0 then node else length h + j - 1)
         \<and> mPath (h' ! (length h + j))
             = path_append (stem (mPath (h' ! (if j = 0 then node else length h + j - 1))))
                 [(c # c' # cs) ! j]"
    if j: "j < length (c' # cs)" for j
  proof (cases j)
    case 0
    with first show ?thesis by simp
  next
    case (Suc i)
    with j have "i < length cs" by simp
    from rest [OF this] show ?thesis
      unfolding Suc l2 by (cases i) simp_all
  qed
  with len res l2 show ?case by simp
qed

text \<open>
  Claim C4.  Let the relative path of a request of kind \<open>GAME\<close> be \<open>pre\<close>, \<open>c\<close>, \<open>cs\<close>, where the
  elements of \<open>pre\<close> are found from the root down to \<open>treeNode\<close> and \<open>treeNode\<close> has no
  child named \<open>c\<close>.  Then the call creates one folder for \<open>c\<close> and for each element of \<open>cs\<close>
  but the last, each under the one before it, and returns the new entry for the last
  element.  The path of each folder is the stem of the path of the node it is
  created under (for the first: \<open>treeNode\<close>, whose path is as before) joined with the
  very element it is created for; this is not that node's full path joined with
  the element as soon as the node's path has two elements or more.
\<close>

theorem findOrCreateFile_intermediate_folders:
  assumes wf: "wf_heap h" and root: "rootFolder system = Some root" "root < length h"
    and rel: "removeCommonPath E path (mPath (h ! root)) = Inr (pre @ c # cs, True)"
    and found: "descend h root pre = Some treeNode"
    and missing: "find_child h (mChildren (h ! treeNode)) c = None"
  shows "\<exists>h'. findOrCreateFile E system h path GAME = Inr (Some (length h + length cs), h')
       \<and> length h' = length h + length cs + 1
       \<and> mPath (h' ! treeNode) = mPath (h ! treeNode)
       \<and> (\<forall>i < length cs.
             mType (h' ! (length h + i)) = FOLDER
             \<and> mParent (h' ! (length h + i)) = Some (if i = 0 then treeNode else length h + i - 1)
             \<and> mPath (h' ! (length h + i))
                 = path_append (stem (mPath (h' ! (if i = 0 then treeNode else length h + i - 1))))
                     [(c # cs) ! i]
             \<and> (2 \<le> length (mPath (h' ! (if i = 0 then treeNode else length h + i - 1))) \<longrightarrow>
                  mPath (h' ! (length h + i))
                    \<noteq> path_append (mPath (h' ! (if i = 0 then treeNode else length h + i - 1)))
                        [(c # cs) ! i]))"
proof -
  obtain res h' where w: "walk E path GAME h treeNode (c # cs) = (res, h')"
    by (cases "walk E path GAME h treeNode (c # cs)")
  from descend_valid [OF wf root(2) found] have tn: "treeNode < length h" .
  have "walk E path GAME h root (pre @ c # cs) = walk E path GAME h treeNode (c # cs)"
    using found by (rule walk_descend) simp
  with root(1) rel w have f: "findOrCreateFile E system h path GAME = Inr (res, h')"
    by (simp add: findOrCreateFile_def)
  from walk_invariant [OF wf tn w] tn have keep: "mPath (h' ! treeNode) = mPath (h ! treeNode)"
    by (simp add: walk_inv_def)
  have differs: "path_append (stem p) [x] \<noteq> path_append p [x]" if "2 \<le> length p"
    for p :: path and x
    using that stem_length [of p] by (auto simp: path_append_def)
  from walk_creates_chain [OF wf tn missing _ w]
  have "length h' = length h + length cs + 1" and "res = Some (length h + length cs)"
    and "\<forall>i < length cs.
         mType (h' ! (length h + i)) = FOLDER
         \<and> mParent (h' ! (length h + i)) = Some (if i = 0 then treeNode else length h + i - 1)
         \<and> mPath (h' ! (length h + i))
             = path_append (stem (mPath (h' ! (if i = 0 then treeNode else length h + i - 1))))
                 [(c # cs) ! i]"
    by simp_all
  with f keep differs show ?thesis
    by (intro exI [of _ h']) (simp del: nth_Cons_Suc)
qed

theorem findOrCreateFile_intermediate_folders_witness:
  "wf_heap demo_heap \<and> rootFolder demo_system = Some 0 \<and> 0 < length demo_heap
   \<and> removeCommonPath demo_env [''/'', ''roms'', ''nes'', ''foo'', ''bar.nes'']
        (mPath (demo_heap ! 0)) = Inr ([] @ ''foo'' # [''bar.nes''], True)
   \<and> descend demo_heap 0 [] = Some 0
   \<and> find_child demo_heap (mChildren (demo_heap ! 0)) ''foo'' = None
   \<and> findOrCreateFile demo_env demo_system demo_heap [''/'', ''roms'', ''nes'', ''foo'', ''bar.nes''] GAME
      = Inr (Some 2,
          [\<lparr>mType = FOLDER, mPath = [''/'', ''roms'', ''nes''],
             metadata = [(''name'', ''nes'')], mChildren = [1], mParent = None\<rparr>,
           \<lparr>mType = FOLDER, mPath = [''nes'', ''foo''],
             metadata = [(''name'', ''foo'')], mChildren = [2], mParent = Some 0\<rparr>,
           \<lparr>mType = GAME, mPath = [''/'', ''roms'', ''nes'', ''foo'', ''bar.nes''],
             metadata = [(''name'', ''bar'')], mChildren = [], mParent = Some 1\<rparr>])
   \<and> path_append (stem [''/'', ''roms'', ''nes'']) [''foo''] = [''nes'', ''foo'']
   \<and> path_append [''/'', ''roms'', ''nes''] [''foo''] = [''/'', ''roms'', ''nes'', ''foo'']"
proof -
  let ?h' = "[\<lparr>mType = FOLDER, mPath = [''/'', ''roms'', ''nes''],
             metadata = [(''name'', ''nes'')], mChildren = [1], mParent = None\<rparr>,
           \<lparr>mType = FOLDER, mPath = [''nes'', ''foo''],
             metadata = [(''name'', ''foo'')], mChildren = [2], mParent = Some 0\<rparr>,
           \<lparr>mType = GAME, mPath = [''/'', ''roms'', ''nes'', ''foo'', ''bar.nes''],
             metadata = [(''name'', ''bar'')], mChildren = [], mParent = Some 1\<rparr>]"
  have h1: "wf_heap demo_heap"
    by (simp add: wf_heap_def demo_heap_def demo_root_def)
  have h2: "rootFolder demo_system = Some 0"
    by (simp add: demo_system_def)
  have h3: "0 < length demo_heap"
    by (simp add: demo_heap_def)
  have h4: "removeCommonPath demo_env [''/'', ''roms'', ''nes'', ''foo'', ''bar.nes'']
        (mPath (demo_heap ! 0)) = Inr ([] @ ''foo'' # [''bar.nes''], True)"
    by (simp add: removeCommonPath_def demo_env_def demo_disk_def demo_heap_def demo_root_def
                  root_path_def find_divergence.simps deref_def path_append_def)
  have h5: "descend demo_heap 0 [] = Some 0" by simp
  have h6: "find_child demo_heap (mChildren (demo_heap ! 0)) ''foo'' = None"
    by (simp add: demo_heap_def demo_root_def)
  have ev: "findOrCreateFile demo_env demo_system demo_heap
              [''/'', ''roms'', ''nes'', ''foo'', ''bar.nes''] GAME = Inr (Some 2, ?h')"
    by (simp add: findOrCreateFile_def removeCommonPath_def demo_env_def demo_disk_def
                  demo_system_def demo_heap_def demo_root_def root_path_def
                  find_divergence.simps deref_def path_append_def alloc_def addChild_def
                  new_FileData_def stem_def stem_of_name_def filename_def)
  from findOrCreateFile_intermediate_folders [OF h1 h2 h3 h4 h5 h6]
  obtain h' where "findOrCreateFile demo_env demo_system demo_heap
         [''/'', ''roms'', ''nes'', ''foo'', ''bar.nes''] GAME
       = Inr (Some (length demo_heap + length [''bar.nes'']), h')"
    by blast
  with ev have "h' = ?h'" by simp
  with h1 h2 h3 h4 h5 h6 ev show ?thesis
    by (simp add: path_append_def stem_def stem_of_name_def)
qed



section \<open>Properties of parseGamelist: metadata\<close>

lemma md_get_md_set: "md_get (md_set m k v) k' = (if k' = k then v else md_get m k')"
  by (simp add: md_get_def md_set_def update_conv')

text \<open>
  The step of the loader for one element whose path exists and whose entry is found
  or created.
\<close>

lemma load_element_replaces_metadata:
  assumes "wf_heap h" and "rootFolder system = Some root" and "root < length h"
    and "fs_exists E (path_of_string (child_text fileNode ''path''))"
    and "findOrCreateFile E system h (path_of_string (child_text fileNode ''path'')) type
           = Inr (Some file, h')"
  shows "\<exists>h''. load_element E system type h fileNode = Inr h'' \<and> length h'' = length h'
       \<and> metadata (h'' ! file) =
           (if md_get (createFromXML E fileNode) ''name'' = []
            then md_set (createFromXML E fileNode) ''name'' (md_get (metadata (h' ! file)) ''name'')
            else createFromXML E fileNode)
       \<and> md_get (metadata (h'' ! file)) ''name'' =
           (if md_get (createFromXML E fileNode) ''name'' = []
            then md_get (metadata (h' ! file)) ''name''
            else md_get (createFromXML E fileNode) ''name'')
       \<and> (\<forall>k. k \<noteq> ''name'' \<longrightarrow>
             md_get (metadata (h'' ! file)) k = md_get (createFromXML E fileNode) k)
       \<and> mType (h'' ! file) = mType (h' ! file) \<and> mPath (h'' ! file) = mPath (h' ! file)
       \<and> mChildren (h'' ! file) = mChildren (h' ! file) \<and> mParent (h'' ! file) = mParent (h' ! file)
       \<and> (\<forall>a. a \<noteq> file \<longrightarrow> h'' ! a = h' ! a)
       \<and> (file < length h \<longrightarrow> metadata (h' ! file) = metadata (h ! file))"
proof -
  from findOrCreateFile_inv [OF assms(1-3,5)] obtain cs where inv: "walk_inv h cs (Some file) h'" ..
  then have fv: "file < length h'" and old: "file < length h \<Longrightarrow> metadata (h' ! file) = metadata (h ! file)"
    unfolding walk_inv_def by auto
  show ?thesis
    using assms(4,5) fv old
    by (auto simp: load_element_def Let_def md_get_md_set)
qed

lemma load_nodes_split:
  "node_name fileNode = tag \<Longrightarrow> load_nodes E system type tag before h = Inr h1 \<Longrightarrow>
   load_element E system type h1 fileNode = Inr h2 \<Longrightarrow>
   load_nodes E system type tag (before @ fileNode # after) h
     = load_nodes E system type tag after h2"
  by (induction before arbitrary: h) (auto split: sum.splits if_splits)

lemma find_root_here:
  "List.find (\<lambda>n. node_name n = ''gameList'') pre = None \<Longrightarrow>
   List.find (\<lambda>n. node_name n = ''gameList'') (pre @ Element ''gameList'' t cs # post)
     = Some (Element ''gameList'' t cs)"
  by (simp add: find_append_first)

text \<open>
  Claim C5.  Let an element named \<open>game\<close> (or \<open>folder\<close>) stand among the children of the
  root, let the loader reach it with the store \<open>h1\<close> (after the elements before it in
  the pass over the games; for a folder, after the whole pass over the games and
  the folders before it), let its path exist and \<open>findOrCreateFile\<close> return the entry
  \<open>file\<close> in the store \<open>h'\<close>.  Then the loader sets the entry's metadata to the metadata
  parsed from the element, except that, when the parsed name is empty, the name the
  entry had is set as its name; nothing else in the store changes, and
  \<open>parseGamelist\<close> goes on from that store with the elements after it.
\<close>

theorem parseGamelist_replaces_metadata:
  assumes noroot: "List.find (\<lambda>n. node_name n = ''gameList'') pre = None"
    and tag: "node_name fileNode = (if type = GAME then ''game'' else ''folder'')"
    and reach: "(if type = GAME then load_nodes E system GAME ''game'' before h
                 else (case load_nodes E system GAME ''game'' (before @ fileNode # after) h of
                         Inl e \<Rightarrow> Inl e
                       | Inr hg \<Rightarrow> load_nodes E system FOLDER ''folder'' before hg)) = Inr h1"
    and wf: "wf_heap h1" and root: "rootFolder system = Some root" "root < length h1"
    and ex: "fs_exists E (path_of_string (child_text fileNode ''path''))"
    and found: "findOrCreateFile E system h1 (path_of_string (child_text fileNode ''path'')) type
                  = Inr (Some file, h')"
    and m': "m' = (if md_get (createFromXML E fileNode) ''name'' = []
                   then md_set (createFromXML E fileNode) ''name''
                          (md_get (metadata (h' ! file)) ''name'')
                   else createFromXML E fileNode)"
    and h2: "h2 = h'[file := (h' ! file)\<lparr>metadata := m'\<rparr>]"
  shows "file < length h'
       \<and> load_element E system type h1 fileNode = Inr h2
       \<and> parseGamelist E system
            (Document (pre @ Element ''gameList'' t (before @ fileNode # after) # post)) h
          = (if type = GAME
             then (case load_nodes E system GAME ''game'' after h2 of
                     Inl e \<Rightarrow> Inl e
                   | Inr hg \<Rightarrow>
                       load_nodes E system FOLDER ''folder'' (before @ fileNode # after) hg)
             else load_nodes E system FOLDER ''folder'' after h2)
       \<and> metadata (h2 ! file) = m'
       \<and> md_get m' ''name'' =
           (if md_get (createFromXML E fileNode) ''name'' = []
            then md_get (metadata (h' ! file)) ''name''
            else md_get (createFromXML E fileNode) ''name'')
       \<and> (\<forall>k. k \<noteq> ''name'' \<longrightarrow> md_get m' k = md_get (createFromXML E fileNode) k)
       \<and> (file < length h1 \<longrightarrow> metadata (h' ! file) = metadata (h1 ! file))"
proof -
  from findOrCreateFile_inv [OF wf root found] obtain cs
    where inv: "walk_inv h1 cs (Some file) h'" ..
  then have fv: "file < length h'"
    and old: "file < length h1 \<longrightarrow> metadata (h' ! file) = metadata (h1 ! file)"
    unfolding walk_inv_def by auto
  have step: "load_element E system type h1 fileNode = Inr h2"
    using ex found by (simp add: load_element_def Let_def m' h2)
  have run: "parseGamelist E system
            (Document (pre @ Element ''gameList'' t (before @ fileNode # after) # post)) h
          = (if type = GAME
             then (case load_nodes E system GAME ''game'' after h2 of
                     Inl e \<Rightarrow> Inl e
                   | Inr hg \<Rightarrow>
                       load_nodes E system FOLDER ''folder'' (before @ fileNode # after) hg)
             else load_nodes E system FOLDER ''folder'' after h2)"
  proof (cases "type = GAME")
    case True
    with reach have "load_nodes E system GAME ''game'' before h = Inr h1" by simp
    with tag True step
    have "load_nodes E system GAME ''game'' (before @ fileNode # after) h
            = load_nodes E system GAME ''game'' after h2"
      by (intro load_nodes_split) simp_all
    with True show ?thesis
      by (simp add: parseGamelist_def find_root_here [OF noroot] cong: sum.case_cong)
  next
    case False
    then have ty: "type = FOLDER" by (cases type) simp_all
    with reach obtain hg
      where g: "load_nodes E system GAME ''game'' (before @ fileNode # after) h = Inr hg"
        and b: "load_nodes E system FOLDER ''folder'' before hg = Inr h1"
      by (auto split: sum.splits)
    from tag ty b step
    have "load_nodes E system FOLDER ''folder'' (before @ fileNode # after) hg
            = load_nodes E system FOLDER ''folder'' after h2"
      by (intro load_nodes_split) simp_all
    with ty g show ?thesis
      by (simp add: parseGamelist_def find_root_here [OF noroot] cong: sum.case_cong)
  qed
  from fv step run old show ?thesis
    by (simp add: h2) (simp add: m' md_get_md_set)
qed

theorem parseGamelist_replaces_metadata_witness:
  "parseGamelist demo_env demo_system
     (Document [Element ''gameList'' []
        [Element ''game'' [] [Element ''path'' ''/roms/nes/a.nes'' [],
                              Element ''desc'' ''Fun'' []]]]) demo_heap
   = Inr [\<lparr>mType = FOLDER, mPath = [''/'', ''roms'', ''nes''],
            metadata = [(''name'', ''nes'')], mChildren = [1], mParent = None\<rparr>,
          \<lparr>mType = GAME, mPath = [''/'', ''roms'', ''nes'', ''a.nes''],
            metadata = [(''desc'', ''Fun''), (''name'', ''a'')], mChildren = [],
            mParent = Some 0\<rparr>]"
proof -
  let ?e = "Element ''game'' [] [Element ''path'' ''/roms/nes/a.nes'' [],
                              Element ''desc'' ''Fun'' []]"
  let ?h' = "[\<lparr>mType = FOLDER, mPath = [''/'', ''roms'', ''nes''],
               metadata = [(''name'', ''nes'')], mChildren = [1], mParent = None\<rparr>,
             \<lparr>mType = GAME, mPath = [''/'', ''roms'', ''nes'', ''a.nes''],
               metadata = [(''name'', ''a'')], mChildren = [], mParent = Some 0\<rparr>]"
  let ?m' = "[(''desc'', ''Fun''), (''name'', ''a'')]"
  have p: "path_of_string (child_text ?e ''path'') = [''/'', ''roms'', ''nes'', ''a.nes'']"
    by (simp add: child_text_def child_def path_of_string_def)
  have a1: "List.find (\<lambda>n. node_name n = ''gameList'') [] = None" by simp
  have a2: "node_name ?e = (if GAME = GAME then ''game'' else ''folder'')" by simp
  have a3: "(if GAME = GAME then load_nodes demo_env demo_system GAME ''game'' [] demo_heap
             else (case load_nodes demo_env demo_system GAME ''game'' ([] @ ?e # []) demo_heap of
                     Inl e \<Rightarrow> Inl e
                   | Inr hg \<Rightarrow> load_nodes demo_env demo_system FOLDER ''folder'' [] hg))
            = Inr demo_heap" by simp
  have a4: "wf_heap demo_heap"
    by (simp add: wf_heap_def demo_heap_def demo_root_def)
  have a5: "rootFolder demo_system = Some 0"
    by (simp add: demo_system_def)
  have a6: "0 < length demo_heap"
    by (simp add: demo_heap_def)
  have a7: "fs_exists demo_env (path_of_string (child_text ?e ''path''))"
    unfolding p by (simp add: demo_env_def demo_disk_def)
  have a8: "findOrCreateFile demo_env demo_system demo_heap
              (path_of_string (child_text ?e ''path'')) GAME = Inr (Some 1, ?h')"
    unfolding p
    by (simp add: findOrCreateFile_def removeCommonPath_def demo_env_def demo_disk_def
                  demo_system_def demo_heap_def demo_root_def root_path_def
                  find_divergence.simps deref_def path_append_def alloc_def addChild_def
                  new_FileData_def stem_def stem_of_name_def filename_def)
  have a9: "?m' = (if md_get (createFromXML demo_env ?e) ''name'' = []
                   then md_set (createFromXML demo_env ?e) ''name''
                          (md_get (metadata (?h' ! 1)) ''name'')
                   else createFromXML demo_env ?e)"
    by (simp add: demo_env_def md_get_def md_set_def)
  have a10: "[?h' ! 0, (?h' ! 1)\<lparr>metadata := ?m'\<rparr>] = ?h'[1 := (?h' ! 1)\<lparr>metadata := ?m'\<rparr>]"
    by simp
  from parseGamelist_replaces_metadata [OF a1 a2 a3 a4 a5 a6 a7 a8 a9 a10, of "[]" "[]"]
  show ?thesis by simp
qed



section \<open>Properties of findOrCreateFile: repeated calls\<close>

lemma addChild_new_children:
  "node < length h \<Longrightarrow> b < length h \<Longrightarrow>
   prefix (mChildren (h ! b)) (mChildren (addChild (h @ [n]) node (length h) ! b))"
  by (cases "b = node") (simp_all add: addChild_new_at_node addChild_new_at_other)

lemma walk_children:
  "wf_heap h \<Longrightarrow> node < length h \<Longrightarrow> walk E path type h node cs = (res, h') \<Longrightarrow>
   b < length h \<Longrightarrow> prefix (mChildren (h ! b)) (mChildren (h' ! b))"
proof (induction cs arbitrary: h node)
  case Nil
  then show ?case by simp
next
  case (Cons c cs)
  show ?case
  proof (cases "find_child h (mChildren (h ! node)) c")
    case (Some child)
    with Cons.prems have cv: "child < length h"
      by (auto simp: wf_heap_def dest!: find_child_Some)
    show ?thesis
    proof (cases "cs = []")
      case True
      with Some Cons.prems show ?thesis by simp
    next
      case False
      with Some Cons.prems have "walk E path type h child cs = (res, h')" by simp
      from Cons.IH [OF Cons.prems(1) cv this Cons.prems(4)] show ?thesis .
    qed
  next
    case None
    show ?thesis
    proof (cases "type = FOLDER")
      case True
      with None Cons.prems show ?thesis by (simp split: if_splits)
    next
      case False
      show ?thesis
      proof (cases "cs = []")
        case True
        with None False Cons.prems
        have "h' = addChild (h @ [new_FileData E type path]) node (length h)"
          by (simp add: alloc_def)
        with Cons.prems(2,4) show ?thesis
          by (simp add: addChild_new_children)
      next
        case cs: False
        let ?n = "new_FileData E FOLDER (path_append (stem (mPath (h ! node))) [c])"
        let ?h2 = "addChild (h @ [?n]) node (length h)"
        from None False cs Cons.prems
        have w: "walk E path type ?h2 (length h) cs = (res, h')"
          by (simp add: alloc_def)
        have wf2: "wf_heap ?h2"
          using Cons.prems(1,2) by (simp add: addChild_new_wf new_FileData_def)
        have l2: "length h < length ?h2" by (simp add: addChild_new_length)
        from Cons.prems(4) l2 have b2: "b < length ?h2" by simp
        have "prefix (mChildren (h ! b)) (mChildren (?h2 ! b))"
          using Cons.prems(2,4) by (rule addChild_new_children)
        also have "prefix (mChildren (?h2 ! b)) (mChildren (h' ! b))"
          using wf2 l2 w b2 by (rule Cons.IH)
        finally show ?thesis .
      qed
    qed
  qed
qed

lemma find_child_grown:
  assumes "\<forall>a \<in> set cs. a < length h"
    and "\<forall>b < length h. mPath (h' ! b) = mPath (h ! b)"
  shows "find_child h' (cs @ extra) c =
           (case find_child h cs c of Some a \<Rightarrow> Some a | None \<Rightarrow> find_child h' extra c)"
  using assms by (induction cs) simp_all

text \<open>What was found in a store is found again in a store that a walk has extended.\<close>

lemma find_child_after_walk:
  assumes wf: "wf_heap h" and node: "node < length h" and b: "b < length h"
    and w: "walk E path type h node cs = (res, h')"
  shows "\<exists>extra. mChildren (h' ! b) = mChildren (h ! b) @ extra
           \<and> find_child h' (mChildren (h' ! b)) c =
               (case find_child h (mChildren (h ! b)) c of
                  Some a \<Rightarrow> Some a
                | None \<Rightarrow> find_child h' extra c)"
proof -
  from walk_children [OF wf node w b] obtain extra
    where ex: "mChildren (h' ! b) = mChildren (h ! b) @ extra"
    by (auto simp: prefix_def)
  from walk_invariant [OF wf node w]
  have paths: "\<forall>b < length h. mPath (h' ! b) = mPath (h ! b)"
    by (simp add: walk_inv_def)
  from wf b have "\<forall>a \<in> set (mChildren (h ! b)). a < length h"
    by (simp add: wf_heap_def)
  from find_child_grown [OF this paths] ex show ?thesis by auto
qed

lemma find_child_new_last:
  assumes wf: "wf_heap h" and node: "node < length h"
    and none: "find_child h (mChildren (h ! node)) c = None"
    and name: "filename (mPath n) = [c]"
  shows "find_child (addChild (h @ [n]) node (length h))
           (mChildren (addChild (h @ [n]) node (length h) ! node)) c = Some (length h)"
proof -
  let ?h2 = "addChild (h @ [n]) node (length h)"
  have ch: "mChildren (?h2 ! node) = mChildren (h ! node) @ [length h]"
    using node by (simp add: addChild_new_at_node)
  have valid: "\<forall>a \<in> set (mChildren (h ! node)). a < length h"
    using wf node by (simp add: wf_heap_def)
  have paths: "\<forall>b < length h. mPath (?h2 ! b) = mPath (h ! b)"
    using node by (simp add: addChild_new_fields)
  have "mPath (?h2 ! length h) = mPath n"
    using node by (simp add: addChild_new_at_new)
  with find_child_grown [OF valid paths, of "[length h]" c] none name show ?thesis
    unfolding ch by simp
qed

lemma walk_again:
  "wf_heap h \<Longrightarrow> node < length h \<Longrightarrow> walk E path type h node cs = (res, h') \<Longrightarrow>
   (cs \<noteq> [] \<longrightarrow> filename path = [last cs]) \<Longrightarrow>
   walk E path type h' node cs = (res, h')"
proof (induction cs arbitrary: h node)
  case Nil
  then show ?case by simp
next
  case (Cons c cs)
  note wf = Cons.prems(1) and node = Cons.prems(2) and w = Cons.prems(3)
  show ?case
  proof (cases "find_child h (mChildren (h ! node)) c")
    case (Some child)
    with wf node have cv: "child < length h"
      by (auto simp: wf_heap_def dest!: find_child_Some)
    from find_child_after_walk [OF wf node node w, of c] Some
    have again: "find_child h' (mChildren (h' ! node)) c = Some child" by auto
    show ?thesis
    proof (cases "cs = []")
      case True
      with Some w have "res = Some child" by simp
      with True again show ?thesis by simp
    next
      case False
      with Some w have w': "walk E path type h child cs = (res, h')" by simp
      from False Cons.prems(4) have "cs \<noteq> [] \<longrightarrow> filename path = [last cs]" by simp
      from Cons.IH [OF wf cv w' this] again False show ?thesis by simp
    qed
  next
    case None
    show ?thesis
    proof (cases "type = FOLDER")
      case True
      with None w have "h' = h" by (simp split: if_splits)
      with w show ?thesis by simp
    next
      case False
      show ?thesis
      proof (cases "cs = []")
        case True
        let ?n = "new_FileData E type path"
        from None False True w
        have r: "res = Some (length h)" and h': "h' = addChild (h @ [?n]) node (length h)"
          by (simp_all add: alloc_def)
        from True Cons.prems(4) have "filename (mPath ?n) = [c]"
          by (simp add: new_FileData_def)
        from find_child_new_last [OF wf node None this] True r h' show ?thesis by simp
      next
        case cs: False
        let ?n = "new_FileData E FOLDER (path_append (stem (mPath (h ! node))) [c])"
        let ?h2 = "addChild (h @ [?n]) node (length h)"
        from None False cs w
        have w2: "walk E path type ?h2 (length h) cs = (res, h')"
          by (simp add: alloc_def)
        have wf2: "wf_heap ?h2"
          using wf node by (simp add: addChild_new_wf new_FileData_def)
        have l2: "length h < length ?h2" by (simp add: addChild_new_length)
        from node l2 have n2: "node < length ?h2" by simp
        from cs Cons.prems(4) have nm: "cs \<noteq> [] \<longrightarrow> filename path = [last cs]" by simp
        have ih: "walk E path type h' (length h) cs = (res, h')"
          using wf2 l2 w2 nm by (rule Cons.IH)
        have "filename (mPath ?n) = [c]"
          by (simp add: new_FileData_def filename_def path_append_def)
        from find_child_new_last [OF wf node None this]
        have "find_child ?h2 (mChildren (?h2 ! node)) c = Some (length h)" .
        with find_child_after_walk [OF wf2 l2 n2 w2, of c]
        have "find_child h' (mChildren (h' ! node)) c = Some (length h)" by auto
        with ih cs show ?thesis by simp
      qed
    qed
  qed
qed

text \<open>
  A second call with the same path returns the entry of the first call and leaves
  the store as the first call left it, as long as the file name of the path is the
  last element of its canonical relative path.
\<close>

lemma findOrCreateFile_again:
  assumes wf: "wf_heap h" and root: "rootFolder system = Some root" "root < length h"
    and first: "findOrCreateFile E system h path type = Inr (res, h')"
    and name: "\<And>relative. removeCommonPath E path (mPath (h ! root)) = Inr (relative, True) \<Longrightarrow>
                 relative \<noteq> [] \<Longrightarrow> filename path = [last relative]"
  shows "findOrCreateFile E system h' path type = Inr (res, h')"
proof -
  from findOrCreateFile_inv [OF wf root first] obtain cs where "walk_inv h cs res h'" ..
  with root(2) have rp: "mPath (h' ! root) = mPath (h ! root)"
    by (simp add: walk_inv_def)
  from first root(1) obtain relative contains
    where rc: "removeCommonPath E path (mPath (h ! root)) = Inr (relative, contains)"
    by (auto simp: findOrCreateFile_def split: sum.splits)
  show ?thesis
  proof (cases contains)
    case False
    with first root(1) rc have "res = None" "h' = h"
      by (simp_all add: findOrCreateFile_def)
    with first show ?thesis by simp
  next
    case True
    with first root(1) rc have w: "walk E path type h root relative = (res, h')"
      by (simp add: findOrCreateFile_def)
    from name rc True have "relative \<noteq> [] \<longrightarrow> filename path = [last relative]" by simp
    from walk_again [OF wf root(2) w this] root(1) rc True rp show ?thesis
      by (simp add: findOrCreateFile_def)
  qed
qed

text \<open>
  Claim C2.  The claim is that a second call with the same contained \<open>GAME\<close> path
  returns the entry of the first call and leaves the tree alone.  The lookup
  compares the children's file names with the elements of the canonical relative
  path, while the new entry is stored under the path as given.  For the symbolic
  link \<open>/roms/nes/link.nes\<close>, whose canonical form ends in \<open>real.nes\<close>, the first call
  creates entry 1 and the second call, not finding \<open>real.nes\<close>, creates entry 2 with
  the same path beside it.
\<close>

theorem findOrCreateFile_symlink_twice:
  "findOrCreateFile demo_env demo_system demo_heap [''/'', ''roms'', ''nes'', ''link.nes''] GAME
     = Inr (Some 1,
         [\<lparr>mType = FOLDER, mPath = [''/'', ''roms'', ''nes''],
            metadata = [(''name'', ''nes'')], mChildren = [1], mParent = None\<rparr>,
          \<lparr>mType = GAME, mPath = [''/'', ''roms'', ''nes'', ''link.nes''],
            metadata = [(''name'', ''link'')], mChildren = [], mParent = Some 0\<rparr>])
   \<and> findOrCreateFile demo_env demo_system
         [\<lparr>mType = FOLDER, mPath = [''/'', ''roms'', ''nes''],
            metadata = [(''name'', ''nes'')], mChildren = [1], mParent = None\<rparr>,
          \<lparr>mType = GAME, mPath = [''/'', ''roms'', ''nes'', ''link.nes''],
            metadata = [(''name'', ''link'')], mChildren = [], mParent = Some 0\<rparr>]
         [''/'', ''roms'', ''nes'', ''link.nes''] GAME
     = Inr (Some 2,
         [\<lparr>mType = FOLDER, mPath = [''/'', ''roms'', ''nes''],
            metadata = [(''name'', ''nes'')], mChildren = [1, 2], mParent = None\<rparr>,
          \<lparr>mType = GAME, mPath = [''/'', ''roms'', ''nes'', ''link.nes''],
            metadata = [(''name'', ''link'')], mChildren = [], mParent = Some 0\<rparr>,
          \<lparr>mType = GAME, mPath = [''/'', ''roms'', ''nes'', ''link.nes''],
            metadata = [(''name'', ''link'')], mChildren = [], mParent = Some 0\<rparr>])"
  by (simp add: findOrCreateFile_def removeCommonPath_def demo_env_def demo_disk_def
                demo_system_def demo_heap_def demo_root_def root_path_def
                find_divergence.simps deref_def path_append_def alloc_def addChild_def
                new_FileData_def stem_def stem_of_name_def filename_def)

section \<open>Properties of updateGamelist: what is removed and what stays\<close>



lemma remove_existing_skip:
  "\<forall>y\<in>set xs. \<not> node_matches E tag p y \<Longrightarrow>
   remove_existing E tag p (xs @ ys) = xs @ remove_existing E tag p ys"
  by (induction xs) simp_all

lemma addFileDataNode_append:
  "addFileDataNode E parent file tag = parent @ addFileDataNode E [] file tag"
  by (simp add: addFileDataNode_def Let_def)

lemma addFileDataNode_length: "length (addFileDataNode E [] file tag) \<le> 1"
  by (simp add: addFileDataNode_def Let_def)



lemma find_replace:
  "List.find P d = Some r \<Longrightarrow> P r' \<Longrightarrow>
   List.find P (d[length (takeWhile (\<lambda>n. \<not> P n) d) := r']) = Some r'"
  by (induction d) (auto split: if_splits)

lemma updateGamelist_unchanged:
  "DisableGamelistWrites cfg \<or> IGNOREGAMELIST cfg \<or> \<not> save_file_ok E
     \<or> rootFolder system = None \<or> file = Unparsable \<Longrightarrow>
   updateGamelist cfg E system h file = file"
  unfolding updateGamelist_def Let_def
  by (cases "file"; cases "rootFolder system"; auto split: option.splits)

lemma updateGamelist_NoFile:
  "\<not> DisableGamelistWrites cfg \<Longrightarrow> \<not> IGNOREGAMELIST cfg \<Longrightarrow> save_file_ok E \<Longrightarrow>
   rootFolder system = Some rf \<Longrightarrow>
   updateGamelist cfg E system h NoFile
     = Document [Element ''gameList'' [] (update_files E (entries E system h) [])]"
  by (simp add: updateGamelist_def entries_def)

lemma updateGamelist_no_root:
  "List.find (\<lambda>n. node_name n = ''gameList'') doc = None \<Longrightarrow>
   updateGamelist cfg E system h (Document doc) = Document doc"
  by (simp add: updateGamelist_def)

lemma updateGamelist_Document:
  "\<not> DisableGamelistWrites cfg \<Longrightarrow> \<not> IGNOREGAMELIST cfg \<Longrightarrow> save_file_ok E \<Longrightarrow>
   rootFolder system = Some rf \<Longrightarrow>
   List.find (\<lambda>n. node_name n = ''gameList'') doc = Some root \<Longrightarrow>
   updateGamelist cfg E system h (Document doc)
     = Document (doc[length (takeWhile (\<lambda>n. node_name n \<noteq> ''gameList'') doc) :=
         Element (node_name root) (node_text root)
           (update_files E (entries E system h) (node_children root))])"
  by (simp add: updateGamelist_def entries_def Let_def)

lemma find_root_replaced:
  assumes "List.find (\<lambda>n. node_name n = ''gameList'') doc = Some root"
  shows "List.find (\<lambda>n. node_name n = ''gameList'')
            (doc[length (takeWhile (\<lambda>n. node_name n \<noteq> ''gameList'') doc) :=
               Element (node_name root) t cs])
          = Some (Element (node_name root) t cs)"
proof -
  from assms have "node_name root = ''gameList''"
    by (auto simp: find_Some_iff)
  with assms show ?thesis
    by (intro find_replace) simp_all
qed


lemma demo_path_a: "path_of_string ''/roms/nes/a.nes'' = [''/'', ''roms'', ''nes'', ''a.nes'']"
  by (simp add: path_of_string_def)

lemma demo_path_gone: "path_of_string ''/roms/nes/gone.nes'' = [''/'', ''roms'', ''nes'', ''gone.nes'']"
  by (simp add: path_of_string_def)

lemma demo_entries: "entries demo_env demo_system demo_tree = [demo_tree ! 1, demo_tree ! 2]"
  by (simp add: entries_def demo_env_def demo_system_def demo_tree_def)

lemma demo_equivalence_ok: "equivalence_ok demo_env"
  by (simp add: equivalence_ok_def demo_env_def)







section \<open>Properties of updateGamelist: saving twice\<close>

lemma paths_match_sym:
  "equivalence_ok E \<Longrightarrow> paths_match E a b \<Longrightarrow> paths_match E b a"
  unfolding equivalence_ok_def paths_match_def by blast

lemma paths_match_trans:
  "equivalence_ok E \<Longrightarrow> paths_match E a b \<Longrightarrow> paths_match E b c \<Longrightarrow> paths_match E a c"
  unfolding equivalence_ok_def paths_match_def by blast

text \<open>Two entries that match one element match the same elements.\<close>

lemma node_matches_coherent:
  assumes ok: "equivalence_ok E"
    and x: "node_matches E (tag_of f) (mPath f) x" "node_matches E (tag_of g) (mPath g) x"
  shows "node_matches E (tag_of f) (mPath f) y = node_matches E (tag_of g) (mPath g) y"
proof -
  from x obtain pn where tg: "tag_of f = tag_of g"
    and pf: "paths_match E (path_of_string (node_text pn)) (mPath f)"
    and pg: "paths_match E (path_of_string (node_text pn)) (mPath g)"
    by (auto simp: node_matches_def split: option.splits)
  from ok pf pg have fg: "paths_match E (mPath f) (mPath g)"
    by (blast intro: paths_match_sym paths_match_trans)
  with ok have gf: "paths_match E (mPath g) (mPath f)"
    by (rule paths_match_sym)
  have "paths_match E q (mPath f) = paths_match E q (mPath g)" for q
    using ok fg gf by (blast intro: paths_match_trans)
  with tg show ?thesis
    by (simp add: node_matches_def split: option.splits)
qed

text \<open>An element written for an entry whose path reads back is matched by the entry.\<close>

lemma written_matches:
  assumes "path_of_string (generic_string (mPath f)) = mPath f"
    and "w \<in> set (addFileDataNode E [] f (tag_of f))"
  shows "node_matches E (tag_of f) (mPath f) w"
  using assms
  by (auto simp: addFileDataNode_def Let_def node_matches_def child_def paths_match_def
           split: if_splits)

lemma remove_existing_filter:
  "length (filter (node_matches E tag p) d) \<le> 1 \<Longrightarrow>
   remove_existing E tag p d = filter (\<lambda>x. \<not> node_matches E tag p x) d"
proof (induction d)
  case Nil
  show ?case by simp
next
  case (Cons x d)
  show ?case
  proof (cases "node_matches E tag p x")
    case True
    with Cons.prems have "filter (node_matches E tag p) d = []" by simp
    then have "filter (\<lambda>x. \<not> node_matches E tag p x) d = d"
      by (simp add: filter_empty_conv filter_id_conv)
    with True show ?thesis by simp
  next
    case False
    with Cons show ?thesis by simp
  qed
qed

lemma surviving_from:
  "w \<in> set (surviving E fs) \<Longrightarrow> \<exists>g \<in> set fs. w \<in> set (addFileDataNode E [] g (tag_of g))"
  by (induction fs) auto

lemma count_after_step:
  assumes ok: "equivalence_ok E"
    and rt: "path_of_string (generic_string (mPath f)) = mPath f"
    and d: "length (filter (node_matches E (tag_of g) (mPath g)) d) \<le> 1"
  shows "length (filter (node_matches E (tag_of g) (mPath g))
           (filter (\<lambda>x. \<not> node_matches E (tag_of f) (mPath f) x) d
            @ addFileDataNode E [] f (tag_of f))) \<le> 1"
proof (cases "\<exists>w \<in> set (addFileDataNode E [] f (tag_of f)). node_matches E (tag_of g) (mPath g) w")
  case True
  then obtain w where w: "w \<in> set (addFileDataNode E [] f (tag_of f))"
    and gw: "node_matches E (tag_of g) (mPath g) w" by blast
  from written_matches [OF rt w] have fw: "node_matches E (tag_of f) (mPath f) w" .
  have same: "node_matches E (tag_of f) (mPath f) y = node_matches E (tag_of g) (mPath g) y" for y
    using ok fw gw by (rule node_matches_coherent)
  have "filter (node_matches E (tag_of g) (mPath g))
          (filter (\<lambda>x. \<not> node_matches E (tag_of f) (mPath f) x) d) = []"
    by (simp add: same filter_empty_conv)
  moreover have "length (filter (node_matches E (tag_of g) (mPath g))
          (addFileDataNode E [] f (tag_of f))) \<le> 1"
    by (rule order_trans [OF length_filter_le addFileDataNode_length])
  ultimately show ?thesis by simp
next
  case False
  then have "filter (node_matches E (tag_of g) (mPath g)) (addFileDataNode E [] f (tag_of f)) = []"
    by (simp add: filter_empty_conv)
  moreover have "length (filter (node_matches E (tag_of g) (mPath g))
          (filter (\<lambda>x. \<not> node_matches E (tag_of f) (mPath f) x) d))
        \<le> length (filter (node_matches E (tag_of g) (mPath g)) d)"
    by (subst filter_filter, subst conj_commute, subst filter_filter [symmetric])
       (rule length_filter_le)
  ultimately show ?thesis using d by simp
qed

lemma update_files_closed:
  assumes ok: "equivalence_ok E"
  shows "\<forall>f \<in> set fs. path_of_string (generic_string (mPath f)) = mPath f \<Longrightarrow>
         \<forall>f \<in> set fs. length (filter (node_matches E (tag_of f) (mPath f)) d) \<le> 1 \<Longrightarrow>
         update_files E fs d = filter (unmatched E fs) d @ surviving E fs"
proof (induction fs arbitrary: d)
  case Nil
  show ?case by (simp add: unmatched_def)
next
  case (Cons f fs)
  let ?d' = "filter (\<lambda>x. \<not> node_matches E (tag_of f) (mPath f) x) d
             @ addFileDataNode E [] f (tag_of f)"
  have rm: "remove_existing E (tag_of f) (mPath f) d
              = filter (\<lambda>x. \<not> node_matches E (tag_of f) (mPath f) x) d"
    using Cons.prems(2) by (intro remove_existing_filter) simp
  have step: "update_files E (f # fs) d = update_files E fs ?d'"
    by (simp add: rm addFileDataNode_append [of E "filter _ d"])
  have cnt: "\<forall>g \<in> set fs. length (filter (node_matches E (tag_of g) (mPath g)) ?d') \<le> 1"
    using Cons.prems by (intro ballI count_after_step [OF ok]) simp_all
  have "update_files E fs ?d' = filter (unmatched E fs) ?d' @ surviving E fs"
    using Cons.prems(1) cnt by (intro Cons.IH) simp_all
  moreover have "filter (unmatched E fs) (filter (\<lambda>x. \<not> node_matches E (tag_of f) (mPath f) x) d)
                  = filter (unmatched E (f # fs)) d"
    unfolding filter_filter by (rule filter_cong) (auto simp: unmatched_def)
  ultimately show ?case
    unfolding step by simp
qed

lemma surviving_count:
  assumes ok: "equivalence_ok E"
  shows "\<forall>g \<in> set fs. path_of_string (generic_string (mPath g)) = mPath g \<Longrightarrow>
         length (filter (node_matches E (tag_of f) (mPath f)) (surviving E fs)) \<le> 1"
proof (induction fs)
  case Nil
  show ?case by simp
next
  case (Cons g fs)
  let ?M = "node_matches E (tag_of f) (mPath f)"
  let ?W = "addFileDataNode E [] g (tag_of g)"
  show ?case
  proof (cases "\<exists>w \<in> set ?W. unmatched E fs w \<and> ?M w")
    case True
    then obtain w where w: "w \<in> set ?W" "unmatched E fs w" "?M w" by blast
    have "\<not> ?M w'" if w': "w' \<in> set (surviving E fs)" for w'
    proof
      assume fw': "?M w'"
      from surviving_from [OF w'] obtain g' where g': "g' \<in> set fs"
        and "w' \<in> set (addFileDataNode E [] g' (tag_of g'))" by blast
      with Cons.prems have "node_matches E (tag_of g') (mPath g') w'"
        by (intro written_matches) simp_all
      from node_matches_coherent [OF ok fw' this, of w] w(3)
      have "node_matches E (tag_of g') (mPath g') w" by simp
      with w(2) g' show False by (simp add: unmatched_def)
    qed
    then have "filter ?M (surviving E fs) = []"
      by (simp add: filter_empty_conv)
    moreover have "length (filter ?M (filter (unmatched E fs) ?W)) \<le> 1"
      by (rule order_trans [OF length_filter_le order_trans [OF length_filter_le addFileDataNode_length]])
    ultimately show ?thesis by simp
  next
    case False
    then have "filter ?M (filter (unmatched E fs) ?W) = []"
      by (auto simp: filter_empty_conv)
    moreover have "length (filter ?M (surviving E fs)) \<le> 1"
      using Cons.prems by (intro Cons.IH) simp
    ultimately show ?thesis by simp
  qed
qed

lemma surviving_matched:
  assumes "\<forall>g \<in> set fs. path_of_string (generic_string (mPath g)) = mPath g"
  shows "filter (unmatched E fs) (surviving E fs) = []"
proof -
  have "\<not> unmatched E fs w" if "w \<in> set (surviving E fs)" for w
  proof -
    from surviving_from [OF that] obtain g where g: "g \<in> set fs"
      and "w \<in> set (addFileDataNode E [] g (tag_of g))" by blast
    with assms have "node_matches E (tag_of g) (mPath g) w"
      by (intro written_matches) simp_all
    with g show ?thesis by (auto simp: unmatched_def)
  qed
  then show ?thesis by (simp add: filter_empty_conv)
qed

lemma update_files_twice:
  assumes ok: "equivalence_ok E"
    and rt: "\<forall>f \<in> set fs. path_of_string (generic_string (mPath f)) = mPath f"
    and one: "\<forall>f \<in> set fs. length (filter (node_matches E (tag_of f) (mPath f)) d) \<le> 1"
  shows "update_files E fs (update_files E fs d) = update_files E fs d"
proof -
  let ?d1 = "filter (unmatched E fs) d @ surviving E fs"
  have first: "update_files E fs d = ?d1"
    using ok rt one by (rule update_files_closed)
  have "length (filter (node_matches E (tag_of f) (mPath f)) ?d1) \<le> 1" if f: "f \<in> set fs" for f
  proof -
    from f have "filter (node_matches E (tag_of f) (mPath f)) (filter (unmatched E fs) d) = []"
      by (auto simp: filter_empty_conv unmatched_def)
    with surviving_count [OF ok rt, of f] show ?thesis by simp
  qed
  then have "update_files E fs ?d1 = filter (unmatched E fs) ?d1 @ surviving E fs"
    using ok rt by (intro update_files_closed) simp_all
  also have "\<dots> = ?d1"
    by (simp add: surviving_matched [OF rt])
  finally show ?thesis
    unfolding first .
qed

lemma find_position:
  "List.find P d = Some r \<Longrightarrow>
   length (takeWhile (\<lambda>n. \<not> P n) d) < length d \<and> d ! length (takeWhile (\<lambda>n. \<not> P n) d) = r"
  by (induction d) (auto split: if_splits)

text \<open>
  Claim C9 as stated fails.  With two elements for \<open>a.nes\<close> in the document, the first
  save removes the first of them and appends the current one, and the second save
  removes the other: the document after the second save differs from the document
  after the first.
\<close>

theorem updateGamelist_twice_counterexample:
  "updateGamelist demo_settings demo_env demo_system demo_tree
     (updateGamelist demo_settings demo_env demo_system demo_tree demo_gamelist_twice)
   \<noteq> updateGamelist demo_settings demo_env demo_system demo_tree demo_gamelist_twice"
proof -
  have 1: "updateGamelist demo_settings demo_env demo_system demo_tree demo_gamelist_twice
    = Document
       [Element ''gameList'' []
         [Element ''game'' [] [Element ''path'' ''/roms/nes/a.nes'' [], Element ''name'' ''Y'' []],
          Element ''game'' [] [Element ''path'' ''/roms/nes/a.nes'' [], Element ''name'' ''Z'' []]]]"
    by (simp add: updateGamelist_def demo_settings_def demo_env_def demo_system_def demo_tree_def
         demo_gamelist_twice_def tag_of_def node_matches_def paths_match_def child_def demo_path_a
         addFileDataNode_def child_text_def stem_def stem_of_name_def demo_disk_def)
  have 2: "updateGamelist demo_settings demo_env demo_system demo_tree
     (Document
       [Element ''gameList'' []
         [Element ''game'' [] [Element ''path'' ''/roms/nes/a.nes'' [], Element ''name'' ''Y'' []],
          Element ''game'' [] [Element ''path'' ''/roms/nes/a.nes'' [], Element ''name'' ''Z'' []]]])
    = Document
       [Element ''gameList'' []
         [Element ''game'' [] [Element ''path'' ''/roms/nes/a.nes'' [], Element ''name'' ''Z'' []],
          Element ''game'' [] [Element ''path'' ''/roms/nes/a.nes'' [], Element ''name'' ''Z'' []]]]"
    by (simp add: updateGamelist_def demo_settings_def demo_env_def demo_system_def demo_tree_def
         tag_of_def node_matches_def paths_match_def child_def demo_path_a
         addFileDataNode_def child_text_def stem_def stem_of_name_def demo_disk_def)
  show ?thesis
    unfolding 1 2 by simp
qed

text \<open>
  Claim C9, as amended.  Let the document before the first save hold, for each
  current entry, at most one element that the entry matches; let every entry's
  path read back unchanged from its generic string, and let \<open>fs::equivalent\<close> be
  symmetric and transitive on existing paths.  Then a second save over the same
  tree leaves the gamelist file as the first save left it.
\<close>

theorem updateGamelist_twice:
  assumes ok: "equivalence_ok E"
    and rt: "\<forall>f \<in> set (entries E system h). path_of_string (generic_string (mPath f)) = mPath f"
    and one: "\<forall>f \<in> set (entries E system h).
                length (filter (node_matches E (tag_of f) (mPath f)) (root_children file)) \<le> 1"
  shows "updateGamelist cfg E system h (updateGamelist cfg E system h file)
           = updateGamelist cfg E system h file"
proof (cases "DisableGamelistWrites cfg \<or> IGNOREGAMELIST cfg \<or> \<not> save_file_ok E
              \<or> rootFolder system = None \<or> file = Unparsable")
  case True
  then have "updateGamelist cfg E system h file = file"
    by (rule updateGamelist_unchanged)
  then show ?thesis by simp
next
  case False
  then obtain rf where rf: "rootFolder system = Some rf" by auto
  from False have on: "\<not> DisableGamelistWrites cfg" "\<not> IGNOREGAMELIST cfg" "save_file_ok E"
    by simp_all
  let ?es = "entries E system h"
  have again: "updateGamelist cfg E system h (Document doc) = Document doc"
    if root: "List.find (\<lambda>n. node_name n = ''gameList'') doc = Some root"
      and stable: "update_files E ?es (node_children root) = node_children root"
    for doc root
  proof -
    from root have i: "length (takeWhile (\<lambda>n. node_name n \<noteq> ''gameList'') doc) < length doc"
      and r: "doc ! length (takeWhile (\<lambda>n. node_name n \<noteq> ''gameList'') doc) = root"
      using find_position [OF root] by simp_all
    show ?thesis
      unfolding updateGamelist_Document [OF on rf root] stable
      using r by (simp add: list_update_same_conv i)
  qed
  show ?thesis
  proof (cases "file")
    case NoFile
    have "update_files E ?es (update_files E ?es []) = update_files E ?es []"
      using ok rt by (rule update_files_twice) simp
    then show ?thesis
      unfolding NoFile updateGamelist_NoFile [OF on rf]
      by (intro again [where root = "Element ''gameList'' [] (update_files E ?es [])"]) simp_all
  next
    case Unparsable
    with False show ?thesis by simp
  next
    case (Document doc)
    show ?thesis
    proof (cases "List.find (\<lambda>n. node_name n = ''gameList'') doc")
      case None
      then show ?thesis
        unfolding Document by (simp only: updateGamelist_no_root)
    next
      case (Some root)
      from one have "\<forall>f \<in> set ?es.
          length (filter (node_matches E (tag_of f) (mPath f)) (node_children root)) \<le> 1"
        by (simp add: Document root_children_def Some)
      with ok rt have "update_files E ?es (update_files E ?es (node_children root))
              = update_files E ?es (node_children root)"
        by (rule update_files_twice)
      then show ?thesis
        unfolding Document updateGamelist_Document [OF on rf Some]
        by (intro again [OF find_root_replaced [OF Some]]) simp
    qed
  qed
qed

theorem updateGamelist_twice_witness:
  "equivalence_ok demo_env
   \<and> entries demo_env demo_system demo_tree = [demo_tree ! 1, demo_tree ! 2]
   \<and> path_of_string (generic_string (mPath (demo_tree ! 1))) = mPath (demo_tree ! 1)
   \<and> path_of_string (generic_string (mPath (demo_tree ! 2))) = mPath (demo_tree ! 2)
   \<and> length (filter (node_matches demo_env (tag_of (demo_tree ! 1)) (mPath (demo_tree ! 1)))
         (root_children demo_gamelist)) \<le> 1
   \<and> length (filter (node_matches demo_env (tag_of (demo_tree ! 2)) (mPath (demo_tree ! 2)))
         (root_children demo_gamelist)) \<le> 1
   \<and> updateGamelist demo_settings demo_env demo_system demo_tree
        (updateGamelist demo_settings demo_env demo_system demo_tree demo_gamelist)
      = updateGamelist demo_settings demo_env demo_system demo_tree demo_gamelist"
proof -
  have rt: "\<forall>f \<in> set (entries demo_env demo_system demo_tree).
         path_of_string (generic_string (mPath f)) = mPath f"
    unfolding demo_entries by (simp add: demo_tree_def path_of_string_def)
  have one: "\<forall>f \<in> set (entries demo_env demo_system demo_tree).
         length (filter (node_matches demo_env (tag_of f) (mPath f)) (root_children demo_gamelist)) \<le> 1"
    unfolding demo_entries
    by (simp add: demo_tree_def root_children_def demo_gamelist_def tag_of_def
          node_matches_def paths_match_def child_def demo_path_a demo_path_gone
          demo_env_def demo_disk_def)
  from updateGamelist_twice [OF demo_equivalence_ok rt one, of demo_settings]
    demo_equivalence_ok rt one
  show ?thesis
    unfolding demo_entries by simp
qed

end
